theory Spec2Isabelle
  imports Main "HOL-Library.Multiset"
begin

section \<open>The memory puzzle game of \<^verbatim>\<open>project.py\<close>\<close>

text \<open>
  The game core of \<^verbatim>\<open>src/project.py\<close>: the classes \<^verbatim>\<open>Card\<close> and \<^verbatim>\<open>Game\<close> without
  their drawing code. Python's unbounded integers are \<^typ>\<open>int\<close>. Methods that mutate
  \<^verbatim>\<open>self\<close> take the object and return the updated one.

  Names follow the source. The attributes \<^verbatim>\<open>x\<close>, \<^verbatim>\<open>y\<close> and \<^verbatim>\<open>value\<close> of a card are
  \<open>card_x\<close>, \<open>card_y\<close> and \<open>card_value\<close> here (\<^verbatim>\<open>value\<close> is a command of the prover,
  and one-letter constants would capture the variables of every statement).
\<close>

subsection \<open>Module constants\<close>

definition WINDOW_WIDTH :: int where "WINDOW_WIDTH = 640"
definition WINDOW_HEIGHT :: int where "WINDOW_HEIGHT = 480"
definition FPS :: int where "FPS = 30"
definition CARD_SIZE :: int where "CARD_SIZE = 100"
definition CARD_SPACING :: int where "CARD_SPACING = 10"
definition GRID_SIZE :: nat where "GRID_SIZE = 4"
definition ANIMATION_SPEED :: int where "ANIMATION_SPEED = 8"

text \<open>\<^verbatim>\<open>CARD_VALUES\<close>: the eight one-character strings \<^verbatim>\<open>'1'\<close> to \<^verbatim>\<open>'8'\<close>, in this order.\<close>

definition CARD_VALUES :: "string list" where
  "CARD_VALUES = map (\<lambda>ch. [ch]) ''12345678''"

subsection \<open>Cards\<close>

text \<open>
  \<^verbatim>\<open>pygame.Rect(left, top, width, height)\<close> is a library type; only \<^verbatim>\<open>collidepoint\<close> is
  used on it. A point is inside a rectangle when it lies on or after the left and top
  edges and strictly before the right and bottom edges.
\<close>

type_synonym Rect = "int \<times> int \<times> int \<times> int"

fun collidepoint :: "Rect \<Rightarrow> int \<times> int \<Rightarrow> bool" where
  "collidepoint (rleft, rtop, rwidth, rheight) (px, py) =
     (rleft \<le> px \<and> px < rleft + rwidth \<and> rtop \<le> py \<and> py < rtop + rheight)"

record Card =
  card_x :: int
  card_y :: int
  card_value :: string
  rect :: Rect
  is_flipped :: bool
  is_matched :: bool
  flip_progress :: int

text \<open>\<^verbatim>\<open>Card.__init__(self, x, y, value)\<close>\<close>

definition Card_init :: "int \<Rightarrow> int \<Rightarrow> string \<Rightarrow> Card" where
  "Card_init x y v =
     \<lparr>card_x = x, card_y = y, card_value = v, rect = (x, y, CARD_SIZE, CARD_SIZE),
      is_flipped = False, is_matched = False, flip_progress = 0\<rparr>"

text \<open>\<^verbatim>\<open>Card.flip\<close>\<close>

definition flip :: "Card \<Rightarrow> Card" where
  "flip c = c\<lparr>is_flipped := \<not> is_flipped c\<rparr>"

text \<open>\<^verbatim>\<open>Card.update_animation\<close>\<close>

definition update_animation :: "Card \<Rightarrow> Card" where
  "update_animation c =
     (if is_flipped c \<or> is_matched c then
        (if flip_progress c < CARD_SIZE then
           (let p = flip_progress c + ANIMATION_SPEED
            in c\<lparr>flip_progress := (if p > CARD_SIZE then CARD_SIZE else p)\<rparr>)
         else c)
      else
        (if flip_progress c > 0 then
           (let p = flip_progress c - ANIMATION_SPEED
            in c\<lparr>flip_progress := (if p < 0 then 0 else p)\<rparr>)
         else c))"

subsection \<open>The game object\<close>

text \<open>
  \<^verbatim>\<open>first_selection\<close> and \<^verbatim>\<open>second_selection\<close> are \<^verbatim>\<open>None\<close> or a reference to one of
  the objects in \<^verbatim>\<open>self.cards\<close>; a card mutated through the reference is the card in the
  list. The model keeps the position of the card in \<^verbatim>\<open>cards\<close>, and the source's identity
  comparison \<^verbatim>\<open>card != self.first_selection\<close> compares positions.
\<close>

record Game =
  cards :: "Card list"
  first_selection :: "nat option"
  second_selection :: "nat option"
  moves :: int
  victory :: bool
  wait_time :: int

datatype py_error = IndexError | KeyError string | TypeError | JSONDecodeError

text \<open>\<^verbatim>\<open>list.pop()\<close> removes and returns the last element; it raises on an empty list.\<close>

fun pop :: "'a list \<Rightarrow> py_error + ('a \<times> 'a list)" where
  "pop [] = Inl IndexError"
| "pop (v # vs) = Inr (last (v # vs), butlast (v # vs))"

text \<open>
  The loop body of \<^verbatim>\<open>initialize_cards\<close>, over the \<open>(row, col)\<close> pairs that the two nested
  \<^verbatim>\<open>range\<close> loops enumerate.
\<close>

fun create_cards ::
  "(nat \<times> nat) list \<Rightarrow> int \<Rightarrow> int \<Rightarrow> string list \<Rightarrow> Card list \<Rightarrow> py_error + Card list" where
  "create_cards [] start_x start_y vals cs = Inr cs"
| "create_cards ((row, col) # rest) start_x start_y vals cs =
     (let x = start_x + int col * (CARD_SIZE + CARD_SPACING);
          y = start_y + int row * (CARD_SIZE + CARD_SPACING)
      in case pop vals of
           Inl e \<Rightarrow> Inl e
         | Inr (v, vals') \<Rightarrow>
             create_cards rest start_x start_y vals' (cs @ [Card_init x y v]))"

definition grid_cells :: "nat \<Rightarrow> (nat \<times> nat) list" where
  "grid_cells n = concat (map (\<lambda>row. map (\<lambda>col. (row, col)) [0..<n]) [0..<n])"

text \<open>
  \<^verbatim>\<open>random.shuffle(values)\<close> leaves some permutation of \<^verbatim>\<open>CARD_VALUES * 2\<close> in \<^verbatim>\<open>values\<close>.
  The outcome of the shuffle is the argument \<open>shuffled\<close>; \<open>shuffle_of\<close> says that it is
  a permutation of the doubled symbol list. \<open>initialize_cards_with\<close> is the body of
  \<^verbatim>\<open>initialize_cards\<close> with the module constant \<^verbatim>\<open>GRID_SIZE\<close> as an argument, and
  \<open>initialize_cards\<close> is that body at the constant of the source.
\<close>

definition shuffle_of :: "string list \<Rightarrow> string list \<Rightarrow> bool" where
  "shuffle_of card_values shuffled \<longleftrightarrow> mset shuffled = mset (card_values @ card_values)"

definition initialize_cards_with :: "nat \<Rightarrow> string list \<Rightarrow> py_error + Card list" where
  "initialize_cards_with grid_size shuffled =
     (let start_x = (WINDOW_WIDTH - (int grid_size * CARD_SIZE + (int grid_size - 1) * CARD_SPACING)) div 2;
          start_y = (WINDOW_HEIGHT - (int grid_size * CARD_SIZE + (int grid_size - 1) * CARD_SPACING)) div 2
      in create_cards (grid_cells grid_size) start_x start_y shuffled [])"

definition initialize_cards :: "string list \<Rightarrow> py_error + Card list" where
  "initialize_cards shuffled = initialize_cards_with GRID_SIZE shuffled"

text \<open>\<^verbatim>\<open>Game.__init__\<close>\<close>

definition Game_init :: "string list \<Rightarrow> py_error + Game" where
  "Game_init shuffled =
     (case initialize_cards shuffled of
        Inl e \<Rightarrow> Inl e
      | Inr cs \<Rightarrow>
          Inr \<lparr>cards = cs, first_selection = None, second_selection = None,
               moves = 0, victory = False, wait_time = 0\<rparr>)"

text \<open>\<^verbatim>\<open>Game.reset_selection\<close>\<close>

definition reset_selection :: "Game \<Rightarrow> Game" where
  "reset_selection g = g\<lparr>first_selection := None, second_selection := None\<rparr>"

text \<open>\<^verbatim>\<open>Game.check_victory\<close>: the loop returns at the first card that is not matched.\<close>

fun all_matched :: "Card list \<Rightarrow> bool" where
  "all_matched [] = True"
| "all_matched (c # cs) = (if \<not> is_matched c then False else all_matched cs)"

definition check_victory :: "Game \<Rightarrow> Game" where
  "check_victory g = (if all_matched (cards g) then g\<lparr>victory := True\<rparr> else g)"

text \<open>
  The search of \<^verbatim>\<open>handle_click\<close>: the position in \<^verbatim>\<open>cards\<close> of the first card under the
  pointer that is neither flipped nor matched. The loop ends there (\<^verbatim>\<open>break\<close>).
\<close>

fun find_card :: "Card list \<Rightarrow> int \<times> int \<Rightarrow> nat \<Rightarrow> nat option" where
  "find_card [] pos k = None"
| "find_card (c # cs) pos k =
     (if collidepoint (rect c) pos \<and> \<not> is_flipped c \<and> \<not> is_matched c then Some k
      else find_card cs pos (Suc k))"

definition clicked :: "Game \<Rightarrow> int \<times> int \<Rightarrow> nat option" where
  "clicked g pos = find_card (cards g) pos 0"

definition set_matched :: "Card \<Rightarrow> Card" where
  "set_matched c = c\<lparr>is_matched := True\<rparr>"

text \<open>\<^verbatim>\<open>Game.handle_click\<close>\<close>

definition handle_click :: "Game \<Rightarrow> int \<times> int \<Rightarrow> Game" where
  "handle_click g pos =
     (if wait_time g > 0 \<or> victory g then g
      else case clicked g pos of
        None \<Rightarrow> g
      | Some k \<Rightarrow>
          (case first_selection g of
             None \<Rightarrow>
               g\<lparr>first_selection := Some k, cards := (cards g)[k := flip (cards g ! k)]\<rparr>
           | Some i \<Rightarrow>
               if second_selection g = None \<and> k \<noteq> i then
                 (let g1 = g\<lparr>second_selection := Some k,
                              cards := (cards g)[k := flip (cards g ! k)],
                              moves := moves g + 1\<rparr>
                  in if card_value (cards g1 ! i) = card_value (cards g1 ! k) then
                       (let g2 = g1\<lparr>cards := (cards g1)[i := set_matched (cards g1 ! i)]\<rparr>;
                            g3 = g2\<lparr>cards := (cards g2)[k := set_matched (cards g2 ! k)]\<rparr>
                        in reset_selection (check_victory g3))
                     else g1\<lparr>wait_time := FPS\<rparr>)
               else g))"

text \<open>
  \<^verbatim>\<open>Game.flip_back_cards\<close>. A card object is truthy, so the test of the source holds
  exactly when both selections are set.
\<close>

definition flip_back_cards :: "Game \<Rightarrow> Game" where
  "flip_back_cards g =
     (case (first_selection g, second_selection g) of
        (Some i, Some j) \<Rightarrow>
          (let g1 = (if \<not> is_matched (cards g ! i)
                     then g\<lparr>cards := (cards g)[i := flip (cards g ! i)]\<rparr> else g);
               g2 = (if \<not> is_matched (cards g1 ! j)
                     then g1\<lparr>cards := (cards g1)[j := flip (cards g1 ! j)]\<rparr> else g1)
           in reset_selection g2)
      | _ \<Rightarrow> g)"

text \<open>\<^verbatim>\<open>Game.update\<close>\<close>

definition update :: "Game \<Rightarrow> Game" where
  "update g =
     (let g1 = g\<lparr>cards := map update_animation (cards g)\<rparr>
      in if wait_time g1 > 0 then
           (let g2 = g1\<lparr>wait_time := wait_time g1 - 1\<rparr>
            in if wait_time g2 = 0 then flip_back_cards g2 else g2)
         else g1)"

subsection \<open>Saving and loading\<close>

text \<open>
  The save file holds the JSON text of \<^verbatim>\<open>save_data\<close>. A typed record has the keys that
  \<^verbatim>\<open>save_game\<close> writes, each of them present or absent (\<open>None\<close>), and values of the
  types that \<^verbatim>\<open>save_game\<close> writes: integers, booleans and strings pass through
  \<^verbatim>\<open>json.dump\<close> and \<^verbatim>\<open>json.load\<close> unchanged. A missing key raises \<^verbatim>\<open>KeyError\<close> at
  the subscript that reads it. These are the files that \<^verbatim>\<open>save_game\<close> writes, and those
  files with keys removed; a file with any other content is in the next subsection.
\<close>

record card_data =
  d_x :: "int option"
  d_y :: "int option"
  d_value :: "string option"
  d_is_flipped :: "bool option"
  d_is_matched :: "bool option"

record save_data =
  d_moves :: "int option"
  d_victory :: "bool option"
  d_cards :: "card_data list option"

text \<open>\<^verbatim>\<open>Game.save_game\<close>: the record written to the save file.\<close>

definition save_card :: "Card \<Rightarrow> card_data" where
  "save_card c =
     \<lparr>d_x = Some (card_x c), d_y = Some (card_y c), d_value = Some (card_value c),
      d_is_flipped = Some (is_flipped c), d_is_matched = Some (is_matched c)\<rparr>"

definition save_game :: "Game \<Rightarrow> save_data" where
  "save_game g =
     \<lparr>d_moves = Some (moves g), d_victory = Some (victory g),
      d_cards = Some (map save_card (cards g))\<rparr>"

text \<open>
  \<^verbatim>\<open>Game.load_game\<close> returns \<^verbatim>\<open>False\<close> when there is no save file and when anything
  raises inside its \<^verbatim>\<open>try\<close> block, and \<^verbatim>\<open>True\<close> after it has rebuilt the game. The
  model returns the failure (\<open>Inl\<close>) or the rebuilt game (\<open>Inr\<close>). The attributes that
  the source has already overwritten when an exception arrives are not modelled.

  \<open>load_game\<close> is \<^verbatim>\<open>Game.load_game\<close> on a typed record, where a missing key is the only
  thing that can raise. The other exceptions of the \<^verbatim>\<open>try\<close> block (a text that is not
  JSON, a value of another type under a key) are in \<open>load_game_file\<close> below.
\<close>

datatype load_failure = NoSaveFile | Raised py_error

text \<open>The body of the loop over \<^verbatim>\<open>save_data['cards']\<close>, for one entry.\<close>

definition load_card :: "card_data \<Rightarrow> py_error + Card" where
  "load_card cd =
     (case d_x cd of None \<Rightarrow> Inl (KeyError ''x'') | Some x \<Rightarrow>
      case d_y cd of None \<Rightarrow> Inl (KeyError ''y'') | Some y \<Rightarrow>
      case d_value cd of None \<Rightarrow> Inl (KeyError ''value'') | Some v \<Rightarrow>
      case d_is_flipped cd of None \<Rightarrow> Inl (KeyError ''is_flipped'') | Some f \<Rightarrow>
      case d_is_matched cd of None \<Rightarrow> Inl (KeyError ''is_matched'') | Some m \<Rightarrow>
        (let c = (Card_init x y v)\<lparr>is_flipped := f, is_matched := m\<rparr>
         in Inr (if is_flipped c \<or> is_matched c
                 then c\<lparr>flip_progress := CARD_SIZE\<rparr> else c)))"

fun load_cards :: "card_data list \<Rightarrow> Card list \<Rightarrow> py_error + Card list" where
  "load_cards [] cs = Inr cs"
| "load_cards (cd # cds) cs =
     (case load_card cd of Inl e \<Rightarrow> Inl e | Inr c \<Rightarrow> load_cards cds (cs @ [c]))"

definition load_game :: "Game \<Rightarrow> save_data option \<Rightarrow> load_failure + Game" where
  "load_game g file =
     (case file of None \<Rightarrow> Inl NoSaveFile | Some sd \<Rightarrow>
      case d_moves sd of None \<Rightarrow> Inl (Raised (KeyError ''moves'')) | Some m \<Rightarrow>
      case d_victory sd of None \<Rightarrow> Inl (Raised (KeyError ''victory'')) | Some v \<Rightarrow>
      case d_cards sd of None \<Rightarrow> Inl (Raised (KeyError ''cards'')) | Some cds \<Rightarrow>
      case load_cards cds [] of Inl e \<Rightarrow> Inl (Raised e) | Inr cs \<Rightarrow>
        Inr (g\<lparr>moves := m, victory := v, cards := cs,
                first_selection := None, second_selection := None, wait_time := 0\<rparr>))"

subsection \<open>The save file as it is found\<close>

text \<open>
  What \<^verbatim>\<open>json.load\<close> returns: \<^verbatim>\<open>None\<close>, a boolean, an integer, a string, a list or a
  dictionary with string keys. A dictionary is the list of the bindings in the order of
  the text, and a key that is bound twice has its last value. Numbers with a fraction or
  an exponent, which become floats, are left out.
\<close>

datatype json =
    JNull
  | JBool bool
  | JInt int
  | JStr string
  | JList "json list"
  | JDict "(string \<times> json) list"

fun dict_get :: "(string \<times> json) list \<Rightarrow> string \<Rightarrow> json option" where
  "dict_get [] k = None"
| "dict_get ((k', v) # kvs) k =
     (case dict_get kvs k of
        Some w \<Rightarrow> Some w
      | None \<Rightarrow> (if k' = k then Some v else None))"

text \<open>
  The subscript \<^verbatim>\<open>obj[key]\<close> with a string key: \<^verbatim>\<open>KeyError\<close> on a dictionary without
  the key, \<^verbatim>\<open>TypeError\<close> on every value that is not a dictionary.
\<close>

fun subscript :: "json \<Rightarrow> string \<Rightarrow> py_error + json" where
  "subscript (JDict kvs) k =
     (case dict_get kvs k of None \<Rightarrow> Inl (KeyError k) | Some v \<Rightarrow> Inr v)"
| "subscript JNull k = Inl TypeError"
| "subscript (JBool b) k = Inl TypeError"
| "subscript (JInt n) k = Inl TypeError"
| "subscript (JStr s) k = Inl TypeError"
| "subscript (JList js) k = Inl TypeError"

text \<open>
  The values that a \<^verbatim>\<open>for\<close> loop takes: the elements of a list, the keys of a
  dictionary, the characters of a string; \<^verbatim>\<open>TypeError\<close> on anything else.
\<close>

fun iterate :: "json \<Rightarrow> py_error + json list" where
  "iterate (JList js) = Inr js"
| "iterate (JDict kvs) = Inr (map JStr (rev (remdups (rev (map fst kvs)))))"
| "iterate (JStr s) = Inr (map (\<lambda>ch. JStr [ch]) s)"
| "iterate JNull = Inl TypeError"
| "iterate (JBool b) = Inl TypeError"
| "iterate (JInt n) = Inl TypeError"

text \<open>
  \<^verbatim>\<open>pygame.Rect(x, y, CARD_SIZE, CARD_SIZE)\<close> in \<^verbatim>\<open>Card.__init__\<close> raises \<^verbatim>\<open>TypeError\<close>
  unless \<^verbatim>\<open>x\<close> and \<^verbatim>\<open>y\<close> are numbers; a boolean is a number in Python. Integers are
  taken without a bound, as in \<open>Card_init\<close>.
\<close>

fun is_number :: "json \<Rightarrow> bool" where
  "is_number (JInt n) = True"
| "is_number (JBool b) = True"
| "is_number JNull = False"
| "is_number (JStr s) = False"
| "is_number (JList js) = False"
| "is_number (JDict kvs) = False"

text \<open>
  The card that the loop body leaves, when the five values have the types that
  \<^verbatim>\<open>save_game\<close> writes. With a value of another type the source goes on all the same,
  with a \<^verbatim>\<open>Card\<close> object that no \<^typ>\<open>Card\<close> describes: \<open>None\<close>.
\<close>

fun typed_card :: "json \<Rightarrow> json \<Rightarrow> json \<Rightarrow> json \<Rightarrow> json \<Rightarrow> Card option" where
  "typed_card (JInt x) (JInt y) (JStr v) (JBool f) (JBool m) =
     (let c = (Card_init x y v)\<lparr>is_flipped := f, is_matched := m\<rparr>
      in Some (if is_flipped c \<or> is_matched c
               then c\<lparr>flip_progress := CARD_SIZE\<rparr> else c))"
| "typed_card x y v f m = None"

text \<open>
  The body of the loop over \<^verbatim>\<open>save_data['cards']\<close>, for one entry of any shape. The
  three arguments of \<^verbatim>\<open>Card\<close> are read before \<^verbatim>\<open>Card.__init__\<close> runs, and the two flags
  after it.
\<close>

definition load_entry :: "json \<Rightarrow> py_error + Card option" where
  "load_entry cd =
     (case subscript cd ''x'' of Inl e \<Rightarrow> Inl e | Inr x \<Rightarrow>
      case subscript cd ''y'' of Inl e \<Rightarrow> Inl e | Inr y \<Rightarrow>
      case subscript cd ''value'' of Inl e \<Rightarrow> Inl e | Inr v \<Rightarrow>
      if \<not> (is_number x \<and> is_number y) then Inl TypeError else
      case subscript cd ''is_flipped'' of Inl e \<Rightarrow> Inl e | Inr f \<Rightarrow>
      case subscript cd ''is_matched'' of Inl e \<Rightarrow> Inl e | Inr m \<Rightarrow>
        Inr (typed_card x y v f m))"

fun load_entries :: "json list \<Rightarrow> Card option list \<Rightarrow> py_error + Card option list" where
  "load_entries [] cs = Inr cs"
| "load_entries (cd # cds) cs =
     (case load_entry cd of Inl e \<Rightarrow> Inl e | Inr c \<Rightarrow> load_entries cds (cs @ [c]))"

text \<open>
  The save file as \<^verbatim>\<open>load_game\<close> finds it: absent, present with a text that
  \<^verbatim>\<open>json.load\<close> refuses, or present with the text of a JSON value.
\<close>

datatype save_file = NoFile | NotJson | Json json

text \<open>
  The three ways in which \<^verbatim>\<open>load_game\<close> ends: it returns \<^verbatim>\<open>False\<close>; it returns
  \<^verbatim>\<open>True\<close> with a game of the typed model; it returns \<^verbatim>\<open>True\<close> with an attribute
  that holds a value of a type that \<^verbatim>\<open>save_game\<close> never writes, a game that
  \<^typ>\<open>Game\<close> does not describe.
\<close>

datatype load_result = Failed load_failure | Loaded Game | Loaded_untyped

text \<open>
  The end of the \<^verbatim>\<open>try\<close> block, which resets the selections and \<^verbatim>\<open>wait_time\<close> and
  returns \<^verbatim>\<open>True\<close>: a game of the typed model when \<^verbatim>\<open>moves\<close> is an integer,
  \<^verbatim>\<open>victory\<close> a boolean and every card typed.
\<close>

fun rebuilt :: "Game \<Rightarrow> json \<Rightarrow> json \<Rightarrow> Card list option \<Rightarrow> load_result" where
  "rebuilt g (JInt m) (JBool v) (Some cs) =
     Loaded (g\<lparr>moves := m, victory := v, cards := cs,
                first_selection := None, second_selection := None, wait_time := 0\<rparr>)"
| "rebuilt g mv vc cs = Loaded_untyped"

text \<open>
  \<^verbatim>\<open>Game.load_game\<close> on the file as it is found, with every exception of its \<^verbatim>\<open>try\<close>
  block: the decoding error, the subscript of a value that is not a dictionary, the
  loop over a value that cannot be iterated, the missing key, the \<^verbatim>\<open>TypeError\<close> of
  \<^verbatim>\<open>pygame.Rect\<close>. The value of \<^verbatim>\<open>moves\<close>, of \<^verbatim>\<open>victory\<close>, of \<^verbatim>\<open>value\<close> and of the two
  flags is stored without any test.
\<close>

definition load_game_file :: "Game \<Rightarrow> save_file \<Rightarrow> load_result" where
  "load_game_file g content =
     (case content of
        NoFile \<Rightarrow> Failed NoSaveFile
      | NotJson \<Rightarrow> Failed (Raised JSONDecodeError)
      | Json j \<Rightarrow>
         (case subscript j ''moves'' of Inl e \<Rightarrow> Failed (Raised e) | Inr mv \<Rightarrow>
          case subscript j ''victory'' of Inl e \<Rightarrow> Failed (Raised e) | Inr vc \<Rightarrow>
          case subscript j ''cards'' of Inl e \<Rightarrow> Failed (Raised e) | Inr cj \<Rightarrow>
          case iterate cj of Inl e \<Rightarrow> Failed (Raised e) | Inr cds \<Rightarrow>
          case load_entries cds [] of Inl e \<Rightarrow> Failed (Raised e) | Inr cs \<Rightarrow>
            rebuilt g mv vc (those cs)))"

definition returns_False :: "load_result \<Rightarrow> bool" where
  "returns_False r =
     (case r of Failed e \<Rightarrow> True | Loaded g \<Rightarrow> False | Loaded_untyped \<Rightarrow> False)"

text \<open>
  The JSON value that \<^verbatim>\<open>json.dump\<close> writes for a typed record, key by key. On it
  \<open>load_game_file\<close> and \<open>load_game\<close> agree (\<open>load_game_file_dump\<close> below).
\<close>

definition binding :: "string \<Rightarrow> json option \<Rightarrow> (string \<times> json) list" where
  "binding k v = (case v of None \<Rightarrow> [] | Some j \<Rightarrow> [(k, j)])"

definition dump_card :: "card_data \<Rightarrow> json" where
  "dump_card cd =
     JDict (binding ''x'' (map_option JInt (d_x cd))
          @ binding ''y'' (map_option JInt (d_y cd))
          @ binding ''value'' (map_option JStr (d_value cd))
          @ binding ''is_flipped'' (map_option JBool (d_is_flipped cd))
          @ binding ''is_matched'' (map_option JBool (d_is_matched cd)))"

definition dump :: "save_data \<Rightarrow> json" where
  "dump sd =
     JDict (binding ''moves'' (map_option JInt (d_moves sd))
          @ binding ''victory'' (map_option JBool (d_victory sd))
          @ binding ''cards'' (map_option (\<lambda>cds. JList (map dump_card cds)) (d_cards sd)))"

subsection \<open>Runs of the main loop\<close>

text \<open>
  \<^verbatim>\<open>main\<close> calls \<^verbatim>\<open>handle_click\<close> for every left click and \<^verbatim>\<open>update\<close> once per frame.
  A run is the list of these calls in order.
\<close>

datatype event = Click "int \<times> int" | Tick

fun step :: "Game \<Rightarrow> event \<Rightarrow> Game" where
  "step g (Click pos) = handle_click g pos"
| "step g Tick = update g"

definition run :: "Game \<Rightarrow> event list \<Rightarrow> Game" where
  "run g evs = foldl step g evs"

text \<open>The games that a fresh game can become.\<close>

inductive reachable :: "Game \<Rightarrow> bool" where
  fresh: "shuffle_of CARD_VALUES shuffled \<Longrightarrow> Game_init shuffled = Inr g \<Longrightarrow> reachable g"
| click: "reachable g \<Longrightarrow> reachable (handle_click g pos)"
| tick: "reachable g \<Longrightarrow> reachable (update g)"

text \<open>The visibility of a card: revealed is face up and not matched, hidden is face down.\<close>

definition revealed :: "Card \<Rightarrow> bool" where
  "revealed c \<longleftrightarrow> is_flipped c \<and> \<not> is_matched c"

definition hidden :: "Card \<Rightarrow> bool" where
  "hidden c \<longleftrightarrow> \<not> is_flipped c \<and> \<not> is_matched c"

text \<open>
  The value that the animation of a card moves to: the comments of \<^verbatim>\<open>update_animation\<close>
  call it fully flipped (\<^verbatim>\<open>CARD_SIZE\<close>) and face down (0).
\<close>

definition target :: "Card \<Rightarrow> int" where
  "target c = (if is_flipped c \<or> is_matched c then CARD_SIZE else 0)"

text \<open>A card for the examples: face up, four units short of fully flipped.\<close>

definition card_96 :: Card where
  "card_96 = (Card_init 105 25 ''1'')\<lparr>is_flipped := True, flip_progress := 96\<rparr>"

text \<open>A game for the examples: two cards, the first of them picked.\<close>

definition game_a :: Game where
  "game_a = \<lparr>cards = [card_96, Card_init 215 25 ''2''], first_selection = Some 0,
     second_selection = None, moves = 3, victory = False, wait_time = 0\<rparr>"

text \<open>
  The invariant of the selection state: every revealed card is one of the two selections,
  the selections are revealed cards, a second selection exists only beside a different
  first one and exactly while \<^verbatim>\<open>wait_time\<close> counts down, and \<^verbatim>\<open>victory\<close> says that all
  cards are matched.
\<close>

definition sel_inv :: "Game \<Rightarrow> bool" where
  "sel_inv g \<longleftrightarrow>
     (\<forall>k < length (cards g). revealed (cards g ! k) \<longrightarrow>
        first_selection g = Some k \<or> second_selection g = Some k) \<and>
     (case first_selection g of
        None \<Rightarrow> second_selection g = None
      | Some i \<Rightarrow> i < length (cards g) \<and> revealed (cards g ! i)) \<and>
     (case second_selection g of
        None \<Rightarrow> wait_time g = 0
      | Some j \<Rightarrow> 0 < wait_time g \<and> j < length (cards g) \<and> revealed (cards g ! j)
                   \<and> first_selection g \<noteq> Some j) \<and>
     (victory g \<longleftrightarrow> all_matched (cards g))"

text \<open>The card that one pass of the loop of \<^verbatim>\<open>initialize_cards\<close> appends.\<close>

definition make_card :: "int \<Rightarrow> int \<Rightarrow> (nat \<times> nat) \<times> string \<Rightarrow> Card" where
  "make_card start_x start_y cv =
     Card_init (start_x + int (snd (fst cv)) * (CARD_SIZE + CARD_SPACING))
               (start_y + int (fst (fst cv)) * (CARD_SIZE + CARD_SPACING)) (snd cv)"

text \<open>
  Games for the examples: the fresh game whose shuffle left the symbols in their order,
  and that game after clicks on its first two cards, which carry different symbols.
\<close>

definition fresh_game :: Game where
  "fresh_game = projr (Game_init (CARD_VALUES @ CARD_VALUES))"

definition mismatch_game :: Game where
  "mismatch_game = handle_click (handle_click fresh_game (110, 30)) (220, 30)"

text \<open>
  The positions in \<^verbatim>\<open>cards\<close> of the cards whose rectangle holds the pointer: the tapped
  tiles. In a fresh game the rectangles do not overlap and there is at most one.
\<close>

definition under_pointer :: "Game \<Rightarrow> int \<times> int \<Rightarrow> nat list" where
  "under_pointer g pos =
     filter (\<lambda>k. collidepoint (rect (cards g ! k)) pos) [0..<length (cards g)]"

text \<open>
  A tap is ignored when the game is won or waiting, when no hidden card is under the
  pointer, or when the card it would pick is the first selection. A tap that is not
  ignored is the first pick when nothing is selected, and otherwise the second pick,
  which completes a comparison. \<open>comparisons\<close> counts the second picks of a run.
\<close>

definition ignored_tap :: "Game \<Rightarrow> int \<times> int \<Rightarrow> bool" where
  "ignored_tap g pos \<longleftrightarrow>
     victory g \<or> 0 < wait_time g \<or> clicked g pos = None \<or> clicked g pos = first_selection g"

definition first_pick :: "Game \<Rightarrow> int \<times> int \<Rightarrow> bool" where
  "first_pick g pos \<longleftrightarrow> \<not> ignored_tap g pos \<and> first_selection g = None"

definition second_pick :: "Game \<Rightarrow> int \<times> int \<Rightarrow> bool" where
  "second_pick g pos \<longleftrightarrow> \<not> ignored_tap g pos \<and> first_selection g \<noteq> None"

fun comparisons :: "Game \<Rightarrow> event list \<Rightarrow> nat" where
  "comparisons g [] = 0"
| "comparisons g (Click pos # evs) =
     (if second_pick g pos then 1 else 0) + comparisons (handle_click g pos) evs"
| "comparisons g (Tick # evs) = comparisons (update g) evs"

text \<open>The two clicks that make \<open>mismatch_game\<close> from \<open>fresh_game\<close>.\<close>

definition two_clicks :: "event list" where
  "two_clicks = [Click (110, 30), Click (220, 30)]"

text \<open>
  The run that wins \<open>fresh_game\<close>: card \<open>k\<close> and card \<open>k + 8\<close> carry the same symbol, and
  \<open>click_at k\<close> is a click inside card \<open>k\<close>.
\<close>

definition click_at :: "nat \<Rightarrow> event" where
  "click_at k = Click (110 + int (k mod 4) * 110, 30 + int (k div 4) * 110)"

definition winning_clicks :: "event list" where
  "winning_clicks = concat (map (\<lambda>k. [click_at k, click_at (k + 8)]) [0..<8])"

definition won_game :: Game where
  "won_game = run fresh_game winning_clicks"

text \<open>
  The state between a mismatch and the flip back: cards \<open>i\<close> and \<open>j\<close> are the two
  selections, both revealed, and \<^verbatim>\<open>wait_time\<close> is \<open>w\<close>.
\<close>

definition waiting :: "nat \<Rightarrow> nat \<Rightarrow> int \<Rightarrow> Game \<Rightarrow> bool" where
  "waiting i j w g \<longleftrightarrow>
     first_selection g = Some i \<and> second_selection g = Some j \<and> i \<noteq> j
     \<and> i < length (cards g) \<and> j < length (cards g)
     \<and> revealed (cards g ! i) \<and> revealed (cards g ! j) \<and> wait_time g = w"

text \<open>
  The words of the specification on a record of any shape. A value has a key when it is
  a dictionary that binds it. The tiles of a record are the values that the loop of
  \<^verbatim>\<open>load_game\<close> visits. A required field is missing when the record lacks one of the
  three keys that \<^verbatim>\<open>load_game\<close> reads in it, or a tile lacks one of the five.
\<close>

fun has_key :: "json \<Rightarrow> string \<Rightarrow> bool" where
  "has_key (JDict kvs) k = (case dict_get kvs k of None \<Rightarrow> False | Some v \<Rightarrow> True)"
| "has_key JNull k = False"
| "has_key (JBool b) k = False"
| "has_key (JInt n) k = False"
| "has_key (JStr s) k = False"
| "has_key (JList js) k = False"

definition record_tiles :: "json \<Rightarrow> json list" where
  "record_tiles j =
     (case subscript j ''cards'' of Inl e \<Rightarrow> [] | Inr cj \<Rightarrow>
      case iterate cj of Inl e \<Rightarrow> [] | Inr cds \<Rightarrow> cds)"

definition card_keys :: "string list" where
  "card_keys = [''x'', ''y'', ''value'', ''is_flipped'', ''is_matched'']"

definition field_missing :: "json \<Rightarrow> bool" where
  "field_missing j \<longleftrightarrow>
     \<not> has_key j ''moves'' \<or> \<not> has_key j ''victory'' \<or> \<not> has_key j ''cards''
     \<or> (\<exists>cd \<in> set (record_tiles j). \<exists>k \<in> set card_keys. \<not> has_key cd k)"

text \<open>
  The symbols of the tiles of a record, and the condition of the specification that
  some symbol is not on exactly two tiles.
\<close>

definition record_symbols :: "json \<Rightarrow> json list" where
  "record_symbols j =
     List.map_filter
       (\<lambda>cd. case subscript cd ''value'' of Inl e \<Rightarrow> None | Inr v \<Rightarrow> Some v)
       (record_tiles j)"

definition symbol_count_not_two :: "json \<Rightarrow> bool" where
  "symbol_count_not_two j \<longleftrightarrow>
     (\<exists>v \<in> set (record_symbols j). count_list (record_symbols j) v \<noteq> 2)"

text \<open>
  A record with other symbols: every value bound to \<^verbatim>\<open>value\<close> in a tile of the list
  \<^verbatim>\<open>cards\<close> is replaced by its image under \<open>f\<close>, and nothing else changes.
\<close>

fun relabel_card :: "(json \<Rightarrow> json) \<Rightarrow> json \<Rightarrow> json" where
  "relabel_card f (JDict kvs) =
     JDict (map (\<lambda>(k, v). (k, if k = ''value'' then f v else v)) kvs)"
| "relabel_card f JNull = JNull"
| "relabel_card f (JBool b) = JBool b"
| "relabel_card f (JInt n) = JInt n"
| "relabel_card f (JStr s) = JStr s"
| "relabel_card f (JList js) = JList js"

fun relabel_cards :: "(json \<Rightarrow> json) \<Rightarrow> json \<Rightarrow> json" where
  "relabel_cards f (JList js) = JList (map (relabel_card f) js)"
| "relabel_cards f JNull = JNull"
| "relabel_cards f (JBool b) = JBool b"
| "relabel_cards f (JInt n) = JInt n"
| "relabel_cards f (JStr s) = JStr s"
| "relabel_cards f (JDict kvs) = JDict kvs"

fun relabel :: "(json \<Rightarrow> json) \<Rightarrow> json \<Rightarrow> json" where
  "relabel f (JDict kvs) =
     JDict (map (\<lambda>(k, v). (k, if k = ''cards'' then relabel_cards f v else v)) kvs)"
| "relabel f JNull = JNull"
| "relabel f (JBool b) = JBool b"
| "relabel f (JInt n) = JInt n"
| "relabel f (JStr s) = JStr s"
| "relabel f (JList js) = JList js"

text \<open>
  Records for the examples: the record of \<open>game_a\<close> without its \<^verbatim>\<open>moves\<close> key, and a
  record whose only tile has no \<^verbatim>\<open>value\<close> key.
\<close>

definition record_without_moves :: save_data where
  "record_without_moves = (save_game game_a)\<lparr>d_moves := None\<rparr>"

definition record_tile_without_value :: json where
  "record_tile_without_value =
     JDict [(''moves'', JInt 0), (''victory'', JBool False),
            (''cards'', JList [JDict [(''x'', JInt 5), (''y'', JInt 5)]])]"

text \<open>
  Card \<open>k\<close> is revealed and is neither selection: the state of a card that was loaded
  face up and unmatched.
\<close>

definition stuck :: "nat \<Rightarrow> Game \<Rightarrow> bool" where
  "stuck k g \<longleftrightarrow>
     k < length (cards g) \<and> revealed (cards g ! k)
     \<and> first_selection g \<noteq> Some k \<and> second_selection g \<noteq> Some k"

text \<open>The game loaded from the record of \<open>game_a\<close>, and a run on it.\<close>

definition loaded_a :: Game where
  "loaded_a = projr (load_game game_a (Some (save_game game_a)))"

definition taps_a :: "event list" where
  "taps_a = [Click (220, 30), Click (110, 30), Tick]"

section \<open>The flip animation\<close>

lemma update_animation_flags:
  "is_flipped (update_animation c) = is_flipped c"
  "is_matched (update_animation c) = is_matched c"
  "card_value (update_animation c) = card_value c"
  "rect (update_animation c) = rect c"
  by (simp_all add: update_animation_def Let_def)

lemma update_animation_range:
  "0 \<le> flip_progress c \<Longrightarrow> flip_progress c \<le> CARD_SIZE \<Longrightarrow>
   0 \<le> flip_progress (update_animation c) \<and> flip_progress (update_animation c) \<le> CARD_SIZE"
  by (simp add: update_animation_def Let_def CARD_SIZE_def ANIMATION_SPEED_def)

lemma update_animation_funpow_range:
  "0 \<le> flip_progress c \<Longrightarrow> flip_progress c \<le> CARD_SIZE \<Longrightarrow>
   0 \<le> flip_progress ((update_animation ^^ n) c)
     \<and> flip_progress ((update_animation ^^ n) c) \<le> CARD_SIZE"
  by (induction n) (simp_all add: update_animation_range)

text \<open>
  C8. A call of \<^verbatim>\<open>update_animation\<close> on a card whose \<^verbatim>\<open>flip_progress\<close> lies between 0
  and \<^verbatim>\<open>CARD_SIZE\<close> keeps the target of the card, moves \<^verbatim>\<open>flip_progress\<close> towards the
  target by \<^verbatim>\<open>ANIMATION_SPEED\<close> but never past it, leaves a card at its target unchanged,
  and keeps \<^verbatim>\<open>flip_progress\<close> between 0 and \<^verbatim>\<open>CARD_SIZE\<close> after any number of calls.
\<close>

theorem update_animation_toward_target:
  assumes "0 \<le> flip_progress c" and "flip_progress c \<le> CARD_SIZE"
  shows "target (update_animation c) = target c
    \<and> (flip_progress c < target c \<longrightarrow>
         flip_progress (update_animation c) = min (target c) (flip_progress c + ANIMATION_SPEED))
    \<and> (target c < flip_progress c \<longrightarrow>
         flip_progress (update_animation c) = max (target c) (flip_progress c - ANIMATION_SPEED))
    \<and> (flip_progress c = target c \<longrightarrow> update_animation c = c)
    \<and> (\<forall>n. 0 \<le> flip_progress ((update_animation ^^ n) c)
           \<and> flip_progress ((update_animation ^^ n) c) \<le> CARD_SIZE)"
proof -
  have "target (update_animation c) = target c"
    by (simp add: target_def update_animation_flags)
  moreover have "flip_progress c < target c \<longrightarrow>
      flip_progress (update_animation c) = min (target c) (flip_progress c + ANIMATION_SPEED)"
    using assms by (auto simp: target_def update_animation_def Let_def)
  moreover have "target c < flip_progress c \<longrightarrow>
      flip_progress (update_animation c) = max (target c) (flip_progress c - ANIMATION_SPEED)"
    using assms by (auto simp: target_def update_animation_def Let_def)
  moreover have "flip_progress c = target c \<longrightarrow> update_animation c = c"
    by (auto simp: target_def update_animation_def Let_def CARD_SIZE_def)
  moreover have "\<forall>n. 0 \<le> flip_progress ((update_animation ^^ n) c)
           \<and> flip_progress ((update_animation ^^ n) c) \<le> CARD_SIZE"
    using assms update_animation_funpow_range by blast
  ultimately show ?thesis by blast
qed

theorem update_animation_toward_target_witness:
  "0 \<le> flip_progress card_96 \<and> flip_progress card_96 \<le> CARD_SIZE
    \<and> flip_progress card_96 < target card_96
    \<and> flip_progress (update_animation card_96) = 100
    \<and> update_animation (update_animation card_96) = update_animation card_96"
proof -
  have h1: "0 \<le> flip_progress card_96"
    by (simp add: card_96_def)
  have h2: "flip_progress card_96 \<le> CARD_SIZE"
    by (simp add: card_96_def CARD_SIZE_def)
  have h3: "flip_progress card_96 < target card_96"
    by (simp add: card_96_def target_def CARD_SIZE_def)
  have t: "target card_96 = 100"
    by (simp add: card_96_def target_def CARD_SIZE_def)
  from update_animation_toward_target [OF h1 h2] h3 t
  have p: "flip_progress (update_animation card_96) = 100"
    by (simp add: card_96_def ANIMATION_SPEED_def)
  have "update_animation (update_animation card_96) = update_animation card_96"
    by (simp add: update_animation_def card_96_def Card_init_def Let_def CARD_SIZE_def
        ANIMATION_SPEED_def)
  with h1 h2 h3 p show ?thesis by simp
qed

section \<open>Saving and loading\<close>

lemma load_card_save_card:
  "load_card (save_card c) =
     Inr (c\<lparr>rect := (card_x c, card_y c, CARD_SIZE, CARD_SIZE),
            flip_progress := (if is_flipped c \<or> is_matched c then CARD_SIZE else 0)\<rparr>)"
  by (cases c) (simp add: load_card_def save_card_def Card_init_def)

lemma load_cards_save_cards:
  "load_cards (map save_card cs) acc =
     Inr (acc @ map (\<lambda>c. c\<lparr>rect := (card_x c, card_y c, CARD_SIZE, CARD_SIZE),
            flip_progress := (if is_flipped c \<or> is_matched c then CARD_SIZE else 0)\<rparr>) cs)"
  by (induction cs arbitrary: acc) (simp_all add: load_card_save_card)

text \<open>
  C2. Loading the record that \<^verbatim>\<open>save_game\<close> writes for a game \<open>s\<close> succeeds, into any
  game object \<open>g0\<close>. The loaded game has the cards of \<open>s\<close> in the same order with the same
  \<^verbatim>\<open>x\<close>, \<^verbatim>\<open>y\<close>, \<^verbatim>\<open>value\<close>, \<^verbatim>\<open>is_flipped\<close> and \<^verbatim>\<open>is_matched\<close>, the same \<^verbatim>\<open>moves\<close> and
  \<^verbatim>\<open>victory\<close>, no selections, and \<^verbatim>\<open>wait_time\<close> 0.
\<close>

theorem load_save_roundtrip:
  "\<exists>g'. load_game g0 (Some (save_game s)) = Inr g'
     \<and> map card_x (cards g') = map card_x (cards s)
     \<and> map card_y (cards g') = map card_y (cards s)
     \<and> map card_value (cards g') = map card_value (cards s)
     \<and> map is_flipped (cards g') = map is_flipped (cards s)
     \<and> map is_matched (cards g') = map is_matched (cards s)
     \<and> moves g' = moves s \<and> victory g' = victory s
     \<and> first_selection g' = None \<and> second_selection g' = None \<and> wait_time g' = 0"
  by (simp add: load_game_def save_game_def load_cards_save_cards comp_def)

theorem load_save_roundtrip_witness:
  "load_game game_a (Some (save_game game_a)) =
     Inr (game_a\<lparr>cards := [card_96\<lparr>flip_progress := 100\<rparr>, Card_init 215 25 ''2''],
                 first_selection := None\<rparr>)"
  using load_save_roundtrip [of game_a game_a]
  by (simp add: load_game_def save_game_def game_a_def load_card_def save_card_def
      card_96_def Card_init_def CARD_SIZE_def)

section \<open>The selection controller\<close>

lemma find_card_Some:
  "find_card cs pos k = Some n \<Longrightarrow>
     k \<le> n \<and> n - k < length cs \<and> collidepoint (rect (cs ! (n - k))) pos
       \<and> \<not> is_flipped (cs ! (n - k)) \<and> \<not> is_matched (cs ! (n - k))"
proof (induction cs arbitrary: k)
  case Nil
  then show ?case by simp
next
  case (Cons c cs)
  show ?case
  proof (cases "collidepoint (rect c) pos \<and> \<not> is_flipped c \<and> \<not> is_matched c")
    case True
    with Cons.prems show ?thesis by simp
  next
    case False
    with Cons.prems have "find_card cs pos (Suc k) = Some n" by auto
    from Cons.IH [OF this] show ?thesis
      by (auto simp: Suc_diff_le)
  qed
qed

lemma find_card_None:
  "find_card cs pos k = None \<longleftrightarrow>
     (\<forall>c \<in> set cs. \<not> (collidepoint (rect c) pos \<and> \<not> is_flipped c \<and> \<not> is_matched c))"
  by (induction cs arbitrary: k) auto

lemma clicked_Some:
  assumes "clicked g pos = Some k"
  shows "k < length (cards g)" and "\<not> is_flipped (cards g ! k)" and "\<not> is_matched (cards g ! k)"
    and "collidepoint (rect (cards g ! k)) pos"
  using find_card_Some [of "cards g" pos 0 k] assms by (simp_all add: clicked_def)

lemma all_matched_iff: "all_matched cs \<longleftrightarrow> (\<forall>c \<in> set cs. is_matched c)"
  by (induction cs) auto

lemma all_matched_nth: "all_matched cs \<longleftrightarrow> (\<forall>k < length cs. is_matched (cs ! k))"
  by (simp add: all_matched_iff all_set_conv_all_nth)

lemma handle_click_ignored: "wait_time g > 0 \<or> victory g \<Longrightarrow> handle_click g pos = g"
  by (auto simp add: handle_click_def)

lemma handle_click_no_card: "clicked g pos = None \<Longrightarrow> handle_click g pos = g"
  by (simp add: handle_click_def)

lemma handle_click_first:
  "\<not> (wait_time g > 0 \<or> victory g) \<Longrightarrow> clicked g pos = Some k \<Longrightarrow> first_selection g = None \<Longrightarrow>
   handle_click g pos = g\<lparr>first_selection := Some k, cards := (cards g)[k := flip (cards g ! k)]\<rparr>"
  by (simp add: handle_click_def)

lemma handle_click_other:
  "clicked g pos = Some k \<Longrightarrow> first_selection g = Some i \<Longrightarrow>
   second_selection g \<noteq> None \<or> k = i \<Longrightarrow> handle_click g pos = g"
  by (auto simp add: handle_click_def)

lemma handle_click_mismatch:
  assumes "\<not> (wait_time g > 0 \<or> victory g)" "clicked g pos = Some k" "first_selection g = Some i"
    "second_selection g = None" "k \<noteq> i"
    "card_value (cards g ! i) \<noteq> card_value (cards g ! k)"
  shows "handle_click g pos =
    g\<lparr>second_selection := Some k, moves := moves g + 1, wait_time := FPS,
      cards := (cards g)[k := flip (cards g ! k)]\<rparr>"
proof -
  have "k < length (cards g)" using assms(2) by (rule clicked_Some)
  then show ?thesis using assms
    by (simp add: handle_click_def Let_def flip_def)
qed

lemma handle_click_match:
  assumes "\<not> (wait_time g > 0 \<or> victory g)" "clicked g pos = Some k" "first_selection g = Some i"
    "second_selection g = None" "k \<noteq> i"
    "card_value (cards g ! i) = card_value (cards g ! k)"
  shows "handle_click g pos =
    reset_selection (check_victory
      (g\<lparr>second_selection := Some k, moves := moves g + 1,
         cards := (cards g)[k := set_matched (flip (cards g ! k)), i := set_matched (cards g ! i)]\<rparr>))"
proof -
  have k: "k < length (cards g)" using assms(2) by (rule clicked_Some)
  have "(cards g)[k := flip (cards g ! k), i := set_matched (cards g ! i),
                 k := set_matched (flip (cards g ! k))]
        = (cards g)[k := set_matched (flip (cards g ! k)), i := set_matched (cards g ! i)]"
    using assms(5) by (simp add: list_update_swap)
  then show ?thesis using assms k
    by (simp add: handle_click_def Let_def flip_def)
qed

lemma sel_inv_first:
  assumes "sel_inv g" "clicked g pos = Some k" "first_selection g = None"
  shows "sel_inv (g\<lparr>first_selection := Some k, cards := (cards g)[k := flip (cards g ! k)]\<rparr>)"
proof -
  note c = clicked_Some [OF assms(2)]
  show ?thesis
    using assms(1,3) c(1,2,3)
    unfolding sel_inv_def all_matched_nth
    by (auto simp: nth_list_update revealed_def flip_def)
qed

lemma sel_inv_mismatch:
  assumes "sel_inv g" "clicked g pos = Some k" "first_selection g = Some i"
    "second_selection g = None" "k \<noteq> i"
  shows "sel_inv (g\<lparr>second_selection := Some k, moves := moves g + 1, wait_time := FPS,
      cards := (cards g)[k := flip (cards g ! k)]\<rparr>)"
proof -
  note c = clicked_Some [OF assms(2)]
  show ?thesis
    using assms(1,3,4,5) c(1,2,3)
    unfolding sel_inv_def all_matched_nth
    by (auto simp: nth_list_update revealed_def flip_def FPS_def)
qed

lemma sel_inv_match:
  assumes "sel_inv g" "clicked g pos = Some k" "first_selection g = Some i"
    "second_selection g = None" "k \<noteq> i"
  shows "sel_inv (reset_selection (check_victory
      (g\<lparr>second_selection := Some k, moves := moves g + 1,
         cards := (cards g)[k := set_matched (flip (cards g ! k)), i := set_matched (cards g ! i)]\<rparr>)))"
proof -
  note c = clicked_Some [OF assms(2)]
  show ?thesis
    using assms(1,3,4,5) c(1,2,3)
    unfolding sel_inv_def all_matched_nth reset_selection_def check_victory_def
    by (auto simp: nth_list_update revealed_def flip_def set_matched_def)
qed


lemma sel_inv_handle_click:
  assumes "sel_inv g"
  shows "sel_inv (handle_click g pos)"
proof (cases "wait_time g > 0 \<or> victory g")
  case True
  then show ?thesis using assms by (simp add: handle_click_ignored)
next
  case active: False
  show ?thesis
  proof (cases "clicked g pos")
    case None
    then show ?thesis using assms by (simp add: handle_click_no_card)
  next
    case (Some k)
    show ?thesis
    proof (cases "first_selection g")
      case None
      then show ?thesis
        using handle_click_first [OF active Some None] sel_inv_first [OF assms Some None]
        by simp
    next
      case first: (Some i)
      show ?thesis
      proof (cases "second_selection g = None \<and> k \<noteq> i")
        case False
        then have "handle_click g pos = g"
          using handle_click_other [OF Some first] by blast
        then show ?thesis using assms by simp
      next
        case True
        then have s: "second_selection g = None" and ki: "k \<noteq> i" by simp_all
        show ?thesis
        proof (cases "card_value (cards g ! i) = card_value (cards g ! k)")
          case True
          then show ?thesis
            using handle_click_match [OF active Some first s ki]
              sel_inv_match [OF assms Some first s ki] by simp
        next
          case False
          then show ?thesis
            using handle_click_mismatch [OF active Some first s ki]
              sel_inv_mismatch [OF assms Some first s ki] by simp
        qed
      qed
    qed
  qed
qed

lemma revealed_update_animation: "revealed (update_animation c) = revealed c"
  by (simp add: revealed_def update_animation_flags)

lemma all_matched_map_update_animation:
  "all_matched (map update_animation cs) = all_matched cs"
  by (induction cs) (simp_all add: update_animation_flags)

lemma sel_inv_animate:
  "sel_inv g \<Longrightarrow> sel_inv (g\<lparr>cards := map update_animation (cards g)\<rparr>)"
  unfolding sel_inv_def
  by (auto simp: revealed_update_animation all_matched_map_update_animation split: option.splits)

lemma sel_inv_countdown:
  assumes "sel_inv g" "0 < wait_time g" "wait_time g - 1 \<noteq> 0"
  shows "sel_inv (g\<lparr>wait_time := wait_time g - 1\<rparr>)"
  using assms unfolding sel_inv_def by (auto split: option.splits)

lemma sel_inv_flip_back:
  assumes "sel_inv g" "0 < wait_time g"
  shows "sel_inv (flip_back_cards (g\<lparr>wait_time := 0\<rparr>))"
proof -
  from assms obtain i j where
    ij: "first_selection g = Some i" "second_selection g = Some j"
    unfolding sel_inv_def by (auto split: option.splits)
  with assms(1) have r: "i < length (cards g)" "j < length (cards g)" "i \<noteq> j"
      "revealed (cards g ! i)" "revealed (cards g ! j)"
    unfolding sel_inv_def by auto
  have eq: "flip_back_cards (g\<lparr>wait_time := 0\<rparr>) =
      g\<lparr>first_selection := None, second_selection := None, wait_time := 0,
        cards := (cards g)[i := flip (cards g ! i), j := flip (cards g ! j)]\<rparr>"
    using ij r by (simp add: flip_back_cards_def reset_selection_def revealed_def Let_def)
  show ?thesis
    unfolding eq using assms(1) ij r
    unfolding sel_inv_def all_matched_nth
    by (auto simp: nth_list_update revealed_def flip_def)
qed

lemma sel_inv_update:
  assumes "sel_inv g"
  shows "sel_inv (update g)"
proof -
  let ?g1 = "g\<lparr>cards := map update_animation (cards g)\<rparr>"
  have g1: "sel_inv ?g1" using assms by (rule sel_inv_animate)
  show ?thesis
  proof (cases "0 < wait_time g")
    case False
    then show ?thesis using g1 by (simp add: update_def Let_def)
  next
    case True
    then have w: "0 < wait_time ?g1" by simp
    show ?thesis
    proof (cases "wait_time g - 1 = 0")
      case True
      then have "update g = flip_back_cards (?g1\<lparr>wait_time := 0\<rparr>)"
        using w by (simp add: update_def Let_def)
      then show ?thesis using sel_inv_flip_back [OF g1 w] by simp
    next
      case False
      then have "update g = ?g1\<lparr>wait_time := wait_time ?g1 - 1\<rparr>"
        using w by (simp add: update_def Let_def)
      moreover have "wait_time ?g1 - 1 \<noteq> 0" using False by simp
      ultimately show ?thesis using sel_inv_countdown [OF g1 w] by simp
    qed
  qed
qed

section \<open>The deck builder\<close>

lemma pop_snoc: "pop (vs @ [v]) = Inr (v, vs)"
  by (cases vs) simp_all

lemma create_cards_ok:
  "length cells \<le> length vals \<Longrightarrow>
   create_cards cells sx sy vals acc = Inr (acc @ map (make_card sx sy) (zip cells (rev vals)))"
proof (induction cells arbitrary: vals acc)
  case Nil
  then show ?case by simp
next
  case (Cons cell cells)
  obtain row col where cell: "cell = (row, col)" by (cases cell)
  from Cons.prems obtain vs v where vals: "vals = vs @ [v]"
    by (cases vals rule: rev_cases) auto
  with Cons.prems have "length cells \<le> length vs" by simp
  from Cons.IH [OF this] show ?case
    by (simp add: cell vals pop_snoc make_card_def Let_def)
qed

lemma create_cards_fail:
  "length vals < length cells \<Longrightarrow> create_cards cells sx sy vals acc = Inl IndexError"
proof (induction cells arbitrary: vals acc)
  case Nil
  then show ?case by simp
next
  case (Cons cell cells)
  obtain row col where cell: "cell = (row, col)" by (cases cell)
  show ?case
  proof (cases vals rule: rev_cases)
    case Nil
    then show ?thesis by (simp add: cell)
  next
    case (snoc vs v)
    with Cons.prems have "length vs < length cells" by simp
    from Cons.IH [OF this] show ?thesis
      by (simp add: cell snoc pop_snoc Let_def)
  qed
qed

lemma grid_cells_product: "grid_cells n = List.product [0..<n] [0..<n]"
  by (simp add: grid_cells_def product_concat_map)

lemma length_grid_cells: "length (grid_cells n) = n * n"
  by (simp add: grid_cells_product)

lemma distinct_grid_cells: "distinct (grid_cells n)"
  by (simp add: grid_cells_product distinct_product)

lemma length_shuffle: "shuffle_of CARD_VALUES shuffled \<Longrightarrow> length shuffled = 16"
proof -
  assume "shuffle_of CARD_VALUES shuffled"
  then have "size (mset shuffled) = size (mset (CARD_VALUES @ CARD_VALUES))"
    by (simp add: shuffle_of_def)
  then show ?thesis by (simp add: CARD_VALUES_def)
qed

lemma initialize_cards_eq:
  assumes "shuffle_of CARD_VALUES shuffled"
  shows "initialize_cards shuffled =
    Inr (map (make_card 105 25) (zip (grid_cells GRID_SIZE) (rev shuffled)))"
proof -
  have "length (grid_cells GRID_SIZE) \<le> length shuffled"
    using length_shuffle [OF assms] by (simp add: length_grid_cells GRID_SIZE_def)
  from create_cards_ok [OF this] show ?thesis
    by (simp add: initialize_cards_def initialize_cards_with_def Let_def GRID_SIZE_def
        WINDOW_WIDTH_def WINDOW_HEIGHT_def CARD_SIZE_def CARD_SPACING_def)
qed

lemma card_value_make_card: "card_value (make_card sx sy cv) = snd cv"
  by (simp add: make_card_def Card_init_def)

lemma map_card_value_make:
  "length cells = length vs \<Longrightarrow> map card_value (map (make_card sx sy) (zip cells vs)) = vs"
  by (simp add: comp_def card_value_make_card)

lemma position_make_card:
  "(card_x (make_card sx sy cv), card_y (make_card sx sy cv)) =
     (sx + int (snd (fst cv)) * (CARD_SIZE + CARD_SPACING),
      sy + int (fst (fst cv)) * (CARD_SIZE + CARD_SPACING))"
  by (simp add: make_card_def Card_init_def)

lemma map_position_make:
  "length cells = length vs \<Longrightarrow>
   map (\<lambda>c. (card_x c, card_y c)) (map (make_card sx sy) (zip cells vs)) =
   map (\<lambda>cell. (sx + int (snd cell) * (CARD_SIZE + CARD_SPACING),
                 sy + int (fst cell) * (CARD_SIZE + CARD_SPACING))) cells"
proof -
  assume l: "length cells = length vs"
  have "map (\<lambda>c. (card_x c, card_y c)) (map (make_card sx sy) (zip cells vs)) =
      map ((\<lambda>cell. (sx + int (snd cell) * (CARD_SIZE + CARD_SPACING),
                 sy + int (fst cell) * (CARD_SIZE + CARD_SPACING))) \<circ> fst) (zip cells vs)"
    by (simp add: comp_def make_card_def Card_init_def)
  also have "\<dots> = map (\<lambda>cell. (sx + int (snd cell) * (CARD_SIZE + CARD_SPACING),
                 sy + int (fst cell) * (CARD_SIZE + CARD_SPACING))) (map fst (zip cells vs))"
    by simp
  finally show ?thesis using l by simp
qed

lemma inj_position:
  "inj (\<lambda>cell :: nat \<times> nat. (sx + int (snd cell) * (CARD_SIZE + CARD_SPACING),
                 sy + int (fst cell) * (CARD_SIZE + CARD_SPACING)))"
  by (auto simp: inj_on_def CARD_SIZE_def CARD_SPACING_def)

lemma count_CARD_VALUES:
  "v \<in> set CARD_VALUES \<Longrightarrow> count (mset (CARD_VALUES @ CARD_VALUES)) v = 2"
  by (auto simp: CARD_VALUES_def)

lemma fresh_make_card:
  "hidden (make_card sx sy cv)" "flip_progress (make_card sx sy cv) = 0"
  "rect (make_card sx sy cv) =
     (card_x (make_card sx sy cv), card_y (make_card sx sy cv), CARD_SIZE, CARD_SIZE)"
  by (simp_all add: make_card_def Card_init_def hidden_def)

text \<open>
  C9, as the code has it. \<^verbatim>\<open>Game()\<close> takes no configuration. With the constants of the
  module it succeeds for every outcome of the shuffle: the game has \<^verbatim>\<open>GRID_SIZE\<close> times
  \<^verbatim>\<open>GRID_SIZE\<close> cards, every symbol of \<^verbatim>\<open>CARD_VALUES\<close> is on exactly two of them and no
  other symbol occurs, the cards lie at pairwise different positions of the grid, row by
  row, all face down, and the game starts with no selection, no moves, no victory and no
  waiting time.
\<close>

theorem Game_init_pairs:
  assumes "shuffle_of CARD_VALUES shuffled"
  shows "\<exists>g. Game_init shuffled = Inr g
     \<and> length (cards g) = GRID_SIZE * GRID_SIZE
     \<and> map card_value (cards g) = rev shuffled
     \<and> (\<forall>v \<in> set CARD_VALUES. count_list (map card_value (cards g)) v = 2)
     \<and> set (map card_value (cards g)) = set CARD_VALUES
     \<and> map (\<lambda>c. (card_x c, card_y c)) (cards g) =
         map (\<lambda>(row, col). (105 + int col * 110, 25 + int row * 110)) (grid_cells GRID_SIZE)
     \<and> distinct (map (\<lambda>c. (card_x c, card_y c)) (cards g))
     \<and> (\<forall>c \<in> set (cards g). hidden c \<and> flip_progress c = 0
           \<and> rect c = (card_x c, card_y c, CARD_SIZE, CARD_SIZE))
     \<and> first_selection g = None \<and> second_selection g = None
     \<and> moves g = 0 \<and> \<not> victory g \<and> wait_time g = 0"
proof -
  let ?cs = "map (make_card 105 25) (zip (grid_cells GRID_SIZE) (rev shuffled))"
  let ?g = "\<lparr>cards = ?cs, first_selection = None, second_selection = None,
               moves = 0, victory = False, wait_time = 0\<rparr>"
  have len: "length (grid_cells GRID_SIZE) = length (rev shuffled)"
    using length_shuffle [OF assms] by (simp add: length_grid_cells GRID_SIZE_def)
  have g: "Game_init shuffled = Inr ?g"
    by (simp add: Game_init_def initialize_cards_eq [OF assms])
  have l: "length ?cs = GRID_SIZE * GRID_SIZE"
    using len by (simp add: length_grid_cells)
  have vals: "map card_value ?cs = rev shuffled"
    using len by (rule map_card_value_make)
  have m: "mset (rev shuffled) = mset (CARD_VALUES @ CARD_VALUES)"
    using assms by (simp add: shuffle_of_def)
  have cnt: "\<forall>v \<in> set CARD_VALUES. count_list (map card_value ?cs) v = 2"
  proof
    fix v assume "v \<in> set CARD_VALUES"
    then have "count (mset (rev shuffled)) v = 2"
      unfolding m by (rule count_CARD_VALUES)
    then show "count_list (map card_value ?cs) v = 2"
      unfolding vals by (simp only: count_mset)
  qed
  have "set (rev shuffled) = set (CARD_VALUES @ CARD_VALUES)"
    using m by (rule mset_eq_setD)
  then have st: "set (map card_value ?cs) = set CARD_VALUES"
    unfolding vals by simp
  have pos: "map (\<lambda>c. (card_x c, card_y c)) ?cs =
      map (\<lambda>(row, col). (105 + int col * 110, 25 + int row * 110)) (grid_cells GRID_SIZE)"
    unfolding map_position_make [OF len]
    by (simp add: CARD_SIZE_def CARD_SPACING_def case_prod_beta)
  have dist: "distinct (map (\<lambda>c. (card_x c, card_y c)) ?cs)"
    unfolding map_position_make [OF len]
    by (simp add: distinct_map distinct_grid_cells inj_on_subset [OF inj_position])
  have fr: "\<forall>c \<in> set ?cs. hidden c \<and> flip_progress c = 0
           \<and> rect c = (card_x c, card_y c, CARD_SIZE, CARD_SIZE)"
    using fresh_make_card by auto
  show ?thesis
    using g l vals cnt st pos dist fr by (intro exI [of _ ?g]) simp
qed


theorem Game_init_pairs_witness:
  "shuffle_of CARD_VALUES (CARD_VALUES @ CARD_VALUES)
    \<and> \<not> isl (Game_init (CARD_VALUES @ CARD_VALUES))
    \<and> length (cards (projr (Game_init (CARD_VALUES @ CARD_VALUES)))) = 16
    \<and> count_list (map card_value (cards (projr (Game_init (CARD_VALUES @ CARD_VALUES))))) ''5'' = 2"
proof -
  have h: "shuffle_of CARD_VALUES (CARD_VALUES @ CARD_VALUES)"
    by (simp add: shuffle_of_def)
  have five: "''5'' \<in> set CARD_VALUES"
    by (simp add: CARD_VALUES_def)
  from Game_init_pairs [OF h] five h show ?thesis
    by (auto simp: GRID_SIZE_def)
qed

text \<open>
  The statement of C9 fails on the code: the body of \<^verbatim>\<open>initialize_cards\<close> with
  \<^verbatim>\<open>GRID_SIZE = 3\<close> and the eight symbols makes nine cards and raises nothing, though nine
  is odd and is not twice eight.
\<close>

theorem odd_grid_no_error:
  "odd (3 * 3 :: nat) \<and> 3 * 3 \<noteq> 2 * length CARD_VALUES
    \<and> \<not> isl (initialize_cards_with 3 (CARD_VALUES @ CARD_VALUES))
    \<and> length (projr (initialize_cards_with 3 (CARD_VALUES @ CARD_VALUES))) = 9"
proof -
  have "length (grid_cells 3) \<le> length (CARD_VALUES @ CARD_VALUES)"
    by (simp add: length_grid_cells CARD_VALUES_def)
  from create_cards_ok [OF this] show ?thesis
    by (simp add: initialize_cards_with_def Let_def length_grid_cells CARD_VALUES_def)
qed

section \<open>Reachable games\<close>

lemma Game_init_eq:
  assumes "shuffle_of CARD_VALUES shuffled"
  shows "Game_init shuffled =
    Inr \<lparr>cards = map (make_card 105 25) (zip (grid_cells GRID_SIZE) (rev shuffled)),
         first_selection = None, second_selection = None,
         moves = 0, victory = False, wait_time = 0\<rparr>"
  by (simp add: Game_init_def initialize_cards_eq [OF assms])

lemma fresh_cards_nonempty:
  assumes "shuffle_of CARD_VALUES shuffled"
  shows "zip (grid_cells GRID_SIZE) (rev shuffled) \<noteq> []"
proof -
  have "length (zip (grid_cells GRID_SIZE) (rev shuffled)) = 16"
    using length_shuffle [OF assms] by (simp add: length_grid_cells GRID_SIZE_def)
  then show ?thesis by auto
qed

lemma not_all_matched_fresh:
  "cvs \<noteq> [] \<Longrightarrow> \<not> all_matched (map (make_card sx sy) cvs)"
  by (cases cvs) (simp_all add: make_card_def Card_init_def)

lemma sel_inv_fresh:
  assumes "shuffle_of CARD_VALUES shuffled" "Game_init shuffled = Inr g"
  shows "sel_inv g"
proof -
  have g: "g = \<lparr>cards = map (make_card 105 25) (zip (grid_cells GRID_SIZE) (rev shuffled)),
         first_selection = None, second_selection = None,
         moves = 0, victory = False, wait_time = 0\<rparr>"
    using assms(2) Game_init_eq [OF assms(1)] by simp
  have "\<not> all_matched (cards g)"
    unfolding g using not_all_matched_fresh [OF fresh_cards_nonempty [OF assms(1)]] by simp
  moreover have "\<forall>k < length (cards g). \<not> revealed (cards g ! k)"
    unfolding g by (simp add: revealed_def make_card_def Card_init_def)
  ultimately show ?thesis
    unfolding sel_inv_def by (simp add: g)
qed

lemma reachable_sel_inv: "reachable g \<Longrightarrow> sel_inv g"
proof (induction rule: reachable.induct)
  case (fresh shuffled g)
  then show ?case by (rule sel_inv_fresh)
next
  case (click g pos)
  then show ?case by (simp add: sel_inv_handle_click)
next
  case (tick g)
  then show ?case by (simp add: sel_inv_update)
qed

lemma sel_inv_revealed_le_2:
  assumes "sel_inv g"
  shows "length (filter revealed (cards g)) \<le> 2"
proof -
  have sub: "{k. k < length (cards g) \<and> revealed (cards g ! k)}
      \<subseteq> set_option (first_selection g) \<union> set_option (second_selection g)"
    using assms unfolding sel_inv_def by auto
  have "card (set_option (first_selection g) \<union> set_option (second_selection g)) \<le> 2"
    by (cases "first_selection g"; cases "second_selection g") (simp_all add: card_insert_if)
  moreover have "finite (set_option (first_selection g) \<union> set_option (second_selection g))"
    by (cases "first_selection g"; cases "second_selection g") simp_all
  ultimately have "card {k. k < length (cards g) \<and> revealed (cards g ! k)} \<le> 2"
    using sub card_mono by (meson le_trans)
  then show ?thesis by (simp add: length_filter_conv_card)
qed

text \<open>
  C1. In every game reachable from a fresh game by calls of \<^verbatim>\<open>handle_click\<close> and
  \<^verbatim>\<open>update\<close>, at most two cards are flipped and not matched.
\<close>

theorem at_most_two_revealed:
  "reachable g \<Longrightarrow> length (filter (\<lambda>c. is_flipped c \<and> \<not> is_matched c) (cards g)) \<le> 2"
proof -
  assume "reachable g"
  then have "sel_inv g" by (rule reachable_sel_inv)
  then have "length (filter revealed (cards g)) \<le> 2" by (rule sel_inv_revealed_le_2)
  moreover have "revealed = (\<lambda>c. is_flipped c \<and> \<not> is_matched c)"
    by (auto simp: revealed_def)
  ultimately show ?thesis by simp
qed


lemma reachable_fresh_game: "reachable fresh_game"
proof -
  have h: "shuffle_of CARD_VALUES (CARD_VALUES @ CARD_VALUES)"
    by (simp add: shuffle_of_def)
  have "Game_init (CARD_VALUES @ CARD_VALUES) = Inr fresh_game"
    by (simp add: fresh_game_def Game_init_eq [OF h])
  with h show ?thesis by (rule reachable.fresh)
qed

lemma reachable_mismatch_game: "reachable mismatch_game"
  unfolding mismatch_game_def by (intro reachable.click reachable_fresh_game)

lemma mismatch_game_revealed:
  "length (filter (\<lambda>c. is_flipped c \<and> \<not> is_matched c) (cards mismatch_game)) = 2"
  by code_simp

theorem at_most_two_revealed_witness:
  "reachable mismatch_game
    \<and> length (filter (\<lambda>c. is_flipped c \<and> \<not> is_matched c) (cards mismatch_game)) = 2
    \<and> length (filter (\<lambda>c. is_flipped c \<and> \<not> is_matched c) (cards mismatch_game)) \<le> 2"
  using at_most_two_revealed [OF reachable_mismatch_game] reachable_mismatch_game
    mismatch_game_revealed by simp

section \<open>Ignored taps\<close>

lemma find_card_under:
  "find_card cs pos n = None \<longleftrightarrow>
     (\<forall>k < length cs. collidepoint (rect (cs ! k)) pos \<longrightarrow> is_flipped (cs ! k) \<or> is_matched (cs ! k))"
  unfolding find_card_None by (auto simp: all_set_conv_all_nth)

lemma clicked_None_iff:
  "clicked g pos = None \<longleftrightarrow>
     (\<forall>k \<in> set (under_pointer g pos). is_flipped (cards g ! k) \<or> is_matched (cards g ! k))"
  by (auto simp: clicked_def under_pointer_def find_card_under)

lemma clicked_under_pointer:
  "clicked g pos = Some k \<Longrightarrow> k \<in> set (under_pointer g pos)"
  using clicked_Some(1,4) [of g pos k] by (simp add: under_pointer_def)

text \<open>
  C6. \<^verbatim>\<open>handle_click\<close> returns the game unchanged when the game is won, when
  \<^verbatim>\<open>wait_time\<close> is positive, when every card under the pointer is already flipped or
  matched, and when the card under the pointer is the first selection.
\<close>

theorem handle_click_ignores:
  assumes "victory g \<or> 0 < wait_time g
     \<or> (\<forall>k \<in> set (under_pointer g pos). is_flipped (cards g ! k) \<or> is_matched (cards g ! k))
     \<or> (\<exists>k. under_pointer g pos = [k] \<and> first_selection g = Some k)"
  shows "handle_click g pos = g"
proof -
  consider "victory g \<or> 0 < wait_time g"
    | "\<forall>k \<in> set (under_pointer g pos). is_flipped (cards g ! k) \<or> is_matched (cards g ! k)"
    | k where "under_pointer g pos = [k]" "first_selection g = Some k"
    using assms by blast
  then show ?thesis
  proof cases
    case 1
    then show ?thesis by (auto simp: handle_click_ignored)
  next
    case 2
    then have "clicked g pos = None" by (simp add: clicked_None_iff)
    then show ?thesis by (rule handle_click_no_card)
  next
    case 3
    show ?thesis
    proof (cases "clicked g pos")
      case None
      then show ?thesis by (rule handle_click_no_card)
    next
      case (Some c)
      then have "c = k" using clicked_under_pointer [OF Some] 3(1) by simp
      then show ?thesis using handle_click_other [OF Some 3(2)] by simp
    qed
  qed
qed


theorem handle_click_ignores_witness:
  "under_pointer game_a (110, 30) = [0] \<and> first_selection game_a = Some 0
    \<and> handle_click game_a (110, 30) = game_a"
proof -
  have u: "under_pointer game_a (110, 30) = [0]"
    by code_simp
  have f: "first_selection game_a = Some 0"
    by (simp add: game_a_def)
  have "\<exists>k. under_pointer game_a (110, 30) = [k] \<and> first_selection game_a = Some k"
    using u f by simp
  then have "handle_click game_a (110, 30) = game_a"
    by (intro handle_click_ignores) blast
  with u f show ?thesis by simp
qed

section \<open>Counting moves\<close>

lemma moves_handle_click:
  assumes "sel_inv g"
  shows "moves (handle_click g pos) = moves g + (if second_pick g pos then 1 else 0)"
proof (cases "wait_time g > 0 \<or> victory g")
  case True
  then have "ignored_tap g pos" by (auto simp: ignored_tap_def)
  then show ?thesis using True by (simp add: handle_click_ignored second_pick_def)
next
  case active: False
  show ?thesis
  proof (cases "clicked g pos")
    case None
    then show ?thesis by (simp add: handle_click_no_card second_pick_def ignored_tap_def)
  next
    case (Some k)
    note c = clicked_Some [OF Some]
    show ?thesis
    proof (cases "first_selection g")
      case None
      then show ?thesis
        using handle_click_first [OF active Some None] by (simp add: second_pick_def)
    next
      case first: (Some i)
      have s: "second_selection g = None"
        using assms active unfolding sel_inv_def by (auto split: option.splits)
      have "is_flipped (cards g ! i)"
        using assms first unfolding sel_inv_def by (simp add: revealed_def)
      with c(2) have ki: "k \<noteq> i" by auto
      have sp: "second_pick g pos"
        using active Some first ki by (simp add: second_pick_def ignored_tap_def)
      show ?thesis
      proof (cases "card_value (cards g ! i) = card_value (cards g ! k)")
        case True
        then show ?thesis
          using handle_click_match [OF active Some first s ki] sp
          by (simp add: reset_selection_def check_victory_def)
      next
        case False
        then show ?thesis
          using handle_click_mismatch [OF active Some first s ki] sp by simp
      qed
    qed
  qed
qed

lemma moves_flip_back_cards: "moves (flip_back_cards g) = moves g"
  by (simp add: flip_back_cards_def reset_selection_def Let_def split: option.splits)

lemma moves_update: "moves (update g) = moves g"
  by (simp add: update_def Let_def moves_flip_back_cards)

lemma sel_inv_step: "sel_inv g \<Longrightarrow> sel_inv (step g e)"
  by (cases e) (simp_all add: sel_inv_handle_click sel_inv_update)

lemma sel_inv_run: "sel_inv g \<Longrightarrow> sel_inv (run g evs)"
  unfolding run_def by (induction evs arbitrary: g) (simp_all add: sel_inv_step)

lemma reachable_step: "reachable g \<Longrightarrow> reachable (step g e)"
  by (cases e) (simp_all add: reachable.click reachable.tick)

lemma reachable_run: "reachable g \<Longrightarrow> reachable (run g evs)"
  unfolding run_def by (induction evs arbitrary: g) (simp_all add: reachable_step)

lemma run_Cons: "run g (e # evs) = run (step g e) evs"
  by (simp add: run_def)

lemma run_Nil: "run g [] = g"
  by (simp add: run_def)

lemma moves_run:
  "sel_inv g \<Longrightarrow> moves (run g evs) = moves g + int (comparisons g evs)"
proof (induction evs arbitrary: g)
  case Nil
  then show ?case by (simp add: run_Nil)
next
  case (Cons e evs)
  show ?case
  proof (cases e)
    case (Click pos)
    have "sel_inv (handle_click g pos)" using Cons.prems by (rule sel_inv_handle_click)
    from Cons.IH [OF this] show ?thesis
      using moves_handle_click [OF Cons.prems, of pos] by (simp add: Click run_Cons)
  next
    case Tick
    have "sel_inv (update g)" using Cons.prems by (rule sel_inv_update)
    from Cons.IH [OF this] show ?thesis
      by (simp add: Tick run_Cons moves_update)
  qed
qed

lemma reachable_iff_run:
  "reachable g \<longleftrightarrow>
     (\<exists>shuffled g0 evs. shuffle_of CARD_VALUES shuffled \<and> Game_init shuffled = Inr g0
        \<and> g = run g0 evs)"
proof
  assume "reachable g"
  then show "\<exists>shuffled g0 evs. shuffle_of CARD_VALUES shuffled \<and> Game_init shuffled = Inr g0
        \<and> g = run g0 evs"
  proof (induction rule: reachable.induct)
    case (fresh shuffled g)
    then have "shuffle_of CARD_VALUES shuffled \<and> Game_init shuffled = Inr g \<and> g = run g []"
      by (simp add: run_Nil)
    then show ?case by blast
  next
    case (click g pos)
    then obtain shuffled g0 evs where
      "shuffle_of CARD_VALUES shuffled" "Game_init shuffled = Inr g0" "g = run g0 evs"
      by blast
    then have "shuffle_of CARD_VALUES shuffled \<and> Game_init shuffled = Inr g0
        \<and> handle_click g pos = run g0 (evs @ [Click pos])"
      by (simp add: run_def)
    then show ?case by blast
  next
    case (tick g)
    then obtain shuffled g0 evs where
      "shuffle_of CARD_VALUES shuffled" "Game_init shuffled = Inr g0" "g = run g0 evs"
      by blast
    then have "shuffle_of CARD_VALUES shuffled \<and> Game_init shuffled = Inr g0
        \<and> update g = run g0 (evs @ [Tick])"
      by (simp add: run_def)
    then show ?case by blast
  qed
next
  assume "\<exists>shuffled g0 evs. shuffle_of CARD_VALUES shuffled \<and> Game_init shuffled = Inr g0
        \<and> g = run g0 evs"
  then show "reachable g"
    using reachable.fresh reachable_run by blast
qed

text \<open>
  C5. Along every run from a fresh game, \<^verbatim>\<open>moves\<close> is the number of second picks so far.
  A click adds one to \<^verbatim>\<open>moves\<close> when it is a second pick and leaves it unchanged when it
  is a first pick or is ignored, whether the two cards match or not; \<^verbatim>\<open>update\<close> never
  changes it. By \<open>reachable_iff_run\<close> the games \<open>run g0 evs\<close> are the reachable ones.
\<close>

theorem moves_counts_comparisons:
  assumes "shuffle_of CARD_VALUES shuffled" and "Game_init shuffled = Inr g0"
  shows "moves (run g0 evs) = int (comparisons g0 evs)
    \<and> moves (handle_click (run g0 evs) pos) =
        moves (run g0 evs) + (if second_pick (run g0 evs) pos then 1 else 0)
    \<and> (first_pick (run g0 evs) pos \<or> ignored_tap (run g0 evs) pos \<longrightarrow>
        moves (handle_click (run g0 evs) pos) = moves (run g0 evs))
    \<and> moves (update (run g0 evs)) = moves (run g0 evs)"
proof -
  have i: "sel_inv g0" using assms by (rule sel_inv_fresh)
  have "moves g0 = 0"
    using assms(2) Game_init_eq [OF assms(1)] by auto
  then have "moves (run g0 evs) = int (comparisons g0 evs)"
    using moves_run [OF i, of evs] by simp
  moreover have "moves (handle_click (run g0 evs) pos) =
        moves (run g0 evs) + (if second_pick (run g0 evs) pos then 1 else 0)"
    using sel_inv_run [OF i] by (rule moves_handle_click)
  ultimately show ?thesis
    by (auto simp: moves_update first_pick_def second_pick_def)
qed

theorem moves_counts_comparisons_witness:
  "shuffle_of CARD_VALUES (CARD_VALUES @ CARD_VALUES)
    \<and> Game_init (CARD_VALUES @ CARD_VALUES) = Inr fresh_game
    \<and> comparisons fresh_game two_clicks = 1
    \<and> moves (run fresh_game two_clicks) = 1
    \<and> first_pick fresh_game (110, 30)
    \<and> moves (handle_click fresh_game (110, 30)) = moves fresh_game"
proof -
  have h: "shuffle_of CARD_VALUES (CARD_VALUES @ CARD_VALUES)"
    by (simp add: shuffle_of_def)
  have i: "Game_init (CARD_VALUES @ CARD_VALUES) = Inr fresh_game"
    by (simp add: fresh_game_def Game_init_eq [OF h])
  have c: "comparisons fresh_game two_clicks = 1"
    by code_simp
  have f: "first_pick fresh_game (110, 30)"
    by code_simp
  from moves_counts_comparisons [OF h i, of two_clicks] c
  have m: "moves (run fresh_game two_clicks) = 1" by simp
  from moves_counts_comparisons [OF h i, of "[]" "(110, 30)"] f
  have "moves (handle_click fresh_game (110, 30)) = moves fresh_game"
    by (simp add: run_Nil)
  with h i c m f show ?thesis by simp
qed

section \<open>Victory\<close>

text \<open>
  C7. In every game reachable from a fresh game, \<^verbatim>\<open>victory\<close> is true exactly when every
  card is matched.
\<close>

theorem victory_iff_all_matched:
  "reachable g \<Longrightarrow> victory g \<longleftrightarrow> (\<forall>c \<in> set (cards g). is_matched c)"
proof -
  assume "reachable g"
  then have "sel_inv g" by (rule reachable_sel_inv)
  then show ?thesis by (simp add: sel_inv_def all_matched_iff)
qed

lemma reachable_won_game: "reachable won_game"
  unfolding won_game_def by (intro reachable_run reachable_fresh_game)

lemma victory_won_game: "victory won_game"
  by code_simp

lemma not_victory_mismatch_game: "\<not> victory mismatch_game"
  by code_simp

theorem victory_iff_all_matched_witness:
  "reachable won_game \<and> victory won_game \<and> list_all is_matched (cards won_game)
    \<and> reachable mismatch_game \<and> \<not> victory mismatch_game
    \<and> \<not> list_all is_matched (cards mismatch_game)"
  using victory_iff_all_matched [OF reachable_won_game] reachable_won_game victory_won_game
    victory_iff_all_matched [OF reachable_mismatch_game] reachable_mismatch_game
    not_victory_mismatch_game
  by (simp add: list_all_iff)

section \<open>Mismatch and flip back\<close>

lemma waiting_update_more:
  assumes "waiting i j w g" "1 < w"
  shows "waiting i j (w - 1) (update g)"
  using assms
  by (simp add: waiting_def update_def Let_def revealed_update_animation)

lemma waiting_update_last:
  assumes "waiting i j 1 g"
  shows "hidden (cards (update g) ! i) \<and> hidden (cards (update g) ! j)
    \<and> wait_time (update g) = 0
    \<and> first_selection (update g) = None \<and> second_selection (update g) = None"
  using assms
  by (simp add: waiting_def update_def Let_def flip_back_cards_def reset_selection_def
      revealed_def hidden_def flip_def update_animation_flags nth_list_update)

lemma waiting_funpow:
  "waiting i j w g \<Longrightarrow> int n < w \<Longrightarrow> waiting i j (w - int n) ((update ^^ n) g)"
proof (induction n)
  case 0
  then show ?case by simp
next
  case (Suc n)
  then have "waiting i j (w - int n) ((update ^^ n) g)" by simp
  moreover have "1 < w - int n" using Suc.prems by simp
  ultimately have "waiting i j (w - int n - 1) (update ((update ^^ n) g))"
    by (rule waiting_update_more)
  then show ?case by (simp add: algebra_simps)
qed

lemma waiting_funpow_last:
  assumes "waiting i j (int (Suc n)) g"
  shows "hidden (cards ((update ^^ Suc n) g) ! i) \<and> hidden (cards ((update ^^ Suc n) g) ! j)
    \<and> wait_time ((update ^^ Suc n) g) = 0"
proof -
  have "waiting i j (int (Suc n) - int n) ((update ^^ n) g)"
    using assms by (intro waiting_funpow) simp_all
  then have "waiting i j 1 ((update ^^ n) g)" by simp
  from waiting_update_last [OF this] show ?thesis by simp
qed


lemma mismatch_waiting:
  assumes "sel_inv g" "first_selection g = None"
    "clicked g p1 = Some i" "clicked (handle_click g p1) p2 = Some j"
    "card_value (cards g ! i) \<noteq> card_value (cards g ! j)"
  shows "waiting i j FPS (handle_click (handle_click g p1) p2)
    \<and> moves (handle_click (handle_click g p1) p2) = moves g + 1"
proof -
  note ci = clicked_Some [OF assms(3)]
  have s: "second_selection g = None" and w: "wait_time g = 0"
    using assms(1,2) unfolding sel_inv_def by (auto split: option.splits)
  have "\<not> all_matched (cards g)"
    using ci(1,3) by (auto simp: all_matched_nth)
  then have v: "\<not> victory g" using assms(1) by (simp add: sel_inv_def)
  have active: "\<not> (wait_time g > 0 \<or> victory g)" using w v by simp
  let ?g1 = "g\<lparr>first_selection := Some i, cards := (cards g)[i := flip (cards g ! i)]\<rparr>"
  have g1: "handle_click g p1 = ?g1"
    using active assms(3,2) by (rule handle_click_first)
  have cj: "clicked ?g1 p2 = Some j" using assms(4) g1 by simp
  note cjs = clicked_Some [OF cj]
  have fi: "is_flipped (cards ?g1 ! i)" using ci(1,2) by (simp add: flip_def)
  with cjs(2) have ji: "j \<noteq> i" by auto
  have jl: "j < length (cards g)" using cjs(1) by simp
  have active1: "\<not> (wait_time ?g1 > 0 \<or> victory ?g1)" using w v by simp
  have vals: "card_value (cards ?g1 ! i) \<noteq> card_value (cards ?g1 ! j)"
    using assms(5) ci(1) ji by (simp add: flip_def)
  have g2: "handle_click ?g1 p2 =
      ?g1\<lparr>second_selection := Some j, moves := moves ?g1 + 1, wait_time := FPS,
           cards := (cards ?g1)[j := flip (cards ?g1 ! j)]\<rparr>"
    using active1 cj _ _ ji vals by (rule handle_click_mismatch) (simp_all add: s)
  have hj: "\<not> is_flipped (cards g ! j)" "\<not> is_matched (cards g ! j)"
    using cjs(2,3) ji by simp_all
  show ?thesis
    unfolding g1 g2 waiting_def
    using ci(1,2,3) jl ji hj by (simp add: revealed_def flip_def)
qed

text \<open>
  C3. In a reachable game with no selection, a click that picks a hidden card \<open>i\<close>
  followed by a click that picks a hidden card \<open>j\<close> with another symbol leaves both
  cards revealed, \<^verbatim>\<open>moves\<close> one higher and \<^verbatim>\<open>wait_time\<close> equal to \<^verbatim>\<open>FPS\<close>. During the next
  \<^verbatim>\<open>FPS\<close> - 1 calls of \<^verbatim>\<open>update\<close> both stay revealed while \<^verbatim>\<open>wait_time\<close> counts down, and
  after exactly \<^verbatim>\<open>FPS\<close> calls both are hidden and \<^verbatim>\<open>wait_time\<close> is 0.
\<close>

theorem mismatch_reveals_then_hides:
  assumes "reachable g" and "first_selection g = None"
    and "clicked g p1 = Some i" and "clicked (handle_click g p1) p2 = Some j"
    and "card_value (cards g ! i) \<noteq> card_value (cards g ! j)"
  shows "revealed (cards (handle_click (handle_click g p1) p2) ! i)
    \<and> revealed (cards (handle_click (handle_click g p1) p2) ! j)
    \<and> moves (handle_click (handle_click g p1) p2) = moves g + 1
    \<and> wait_time (handle_click (handle_click g p1) p2) = FPS
    \<and> (\<forall>n < nat FPS.
          revealed (cards ((update ^^ n) (handle_click (handle_click g p1) p2)) ! i)
        \<and> revealed (cards ((update ^^ n) (handle_click (handle_click g p1) p2)) ! j)
        \<and> wait_time ((update ^^ n) (handle_click (handle_click g p1) p2)) = FPS - int n)
    \<and> hidden (cards ((update ^^ nat FPS) (handle_click (handle_click g p1) p2)) ! i)
    \<and> hidden (cards ((update ^^ nat FPS) (handle_click (handle_click g p1) p2)) ! j)
    \<and> wait_time ((update ^^ nat FPS) (handle_click (handle_click g p1) p2)) = 0"
proof -
  let ?g2 = "handle_click (handle_click g p1) p2"
  have "sel_inv g" using assms(1) by (rule reachable_sel_inv)
  from mismatch_waiting [OF this assms(2-5)]
  have w: "waiting i j FPS ?g2" and m: "moves ?g2 = moves g + 1" by simp_all
  have during: "\<forall>n < nat FPS. revealed (cards ((update ^^ n) ?g2) ! i)
        \<and> revealed (cards ((update ^^ n) ?g2) ! j)
        \<and> wait_time ((update ^^ n) ?g2) = FPS - int n"
  proof (intro allI impI)
    fix n assume "n < nat FPS"
    then have "int n < FPS" by simp
    with w have "waiting i j (FPS - int n) ((update ^^ n) ?g2)" by (rule waiting_funpow)
    then show "revealed (cards ((update ^^ n) ?g2) ! i)
        \<and> revealed (cards ((update ^^ n) ?g2) ! j)
        \<and> wait_time ((update ^^ n) ?g2) = FPS - int n"
      by (simp add: waiting_def)
  qed
  have "nat FPS = Suc 29" by (simp add: FPS_def)
  moreover have "waiting i j (int (Suc 29)) ?g2" using w by (simp add: FPS_def)
  ultimately have after: "hidden (cards ((update ^^ nat FPS) ?g2) ! i)
      \<and> hidden (cards ((update ^^ nat FPS) ?g2) ! j)
      \<and> wait_time ((update ^^ nat FPS) ?g2) = 0"
    using waiting_funpow_last [of i j 29 ?g2] by simp
  from w have "revealed (cards ?g2 ! i) \<and> revealed (cards ?g2 ! j) \<and> wait_time ?g2 = FPS"
    by (simp add: waiting_def)
  with m during after show ?thesis by blast
qed

lemma fresh_game_clicks:
  "first_selection fresh_game = None" "clicked fresh_game (110, 30) = Some 0"
  "clicked (handle_click fresh_game (110, 30)) (220, 30) = Some 1"
  "card_value (cards fresh_game ! 0) \<noteq> card_value (cards fresh_game ! 1)"
  by code_simp+

theorem mismatch_reveals_then_hides_witness:
  "reachable fresh_game \<and> first_selection fresh_game = None
    \<and> clicked fresh_game (110, 30) = Some 0
    \<and> clicked (handle_click fresh_game (110, 30)) (220, 30) = Some 1
    \<and> card_value (cards fresh_game ! 0) \<noteq> card_value (cards fresh_game ! 1)
    \<and> wait_time mismatch_game = FPS \<and> moves mismatch_game = 1
    \<and> revealed (cards mismatch_game ! 0) \<and> revealed (cards mismatch_game ! 1)
    \<and> hidden (cards ((update ^^ nat FPS) mismatch_game) ! 0)
    \<and> hidden (cards ((update ^^ nat FPS) mismatch_game) ! 1)
    \<and> wait_time ((update ^^ nat FPS) mismatch_game) = 0"
proof -
  have m0: "moves fresh_game = 0" by code_simp
  from mismatch_reveals_then_hides [OF reachable_fresh_game fresh_game_clicks] m0
    reachable_fresh_game fresh_game_clicks
  show ?thesis unfolding mismatch_game_def by simp
qed

section \<open>The save file as it is found\<close>

lemma dict_get_append:
  "dict_get (xs @ ys) k =
     (case dict_get ys k of Some w \<Rightarrow> Some w | None \<Rightarrow> dict_get xs k)"
  by (induction xs) (auto split: option.splits)

lemma dict_get_binding: "dict_get (binding k' v) k = (if k' = k then v else None)"
  by (cases v) (simp_all add: binding_def)

lemma those_map_Some: "those (map Some cs) = Some cs"
  by (induction cs) simp_all

lemma load_entry_dump_card:
  "load_entry (dump_card cd) =
     (case load_card cd of Inl e \<Rightarrow> Inl e | Inr c \<Rightarrow> Inr (Some c))"
  by (cases "d_x cd"; cases "d_y cd"; cases "d_value cd"; cases "d_is_flipped cd";
      cases "d_is_matched cd")
    (simp_all add: load_entry_def dump_card_def load_card_def dict_get_append
      dict_get_binding Let_def)

lemma load_entries_dump_cards:
  "load_entries (map dump_card cds) (map Some acc) =
     (case load_cards cds acc of Inl e \<Rightarrow> Inl e | Inr cs \<Rightarrow> Inr (map Some cs))"
proof (induction cds arbitrary: acc)
  case Nil
  then show ?case by simp
next
  case (Cons cd cds)
  show ?case
  proof (cases "load_card cd")
    case (Inl e)
    then show ?thesis by (simp add: load_entry_dump_card)
  next
    case (Inr c)
    then show ?thesis using Cons.IH [of "acc @ [c]"] by (simp add: load_entry_dump_card)
  qed
qed

text \<open>
  On the file that \<^verbatim>\<open>json.dump\<close> writes for a typed record, and on the absent file,
  \<open>load_game_file\<close> is \<open>load_game\<close>: the typed model is the untyped one on the files
  that \<^verbatim>\<open>save_game\<close> writes and on those files with keys removed.
\<close>

lemma load_game_file_dump:
  "load_game_file g (Json (dump sd)) =
     (case load_game g (Some sd) of Inl e \<Rightarrow> Failed e | Inr g' \<Rightarrow> Loaded g')"
proof -
  have e: "load_entries (map dump_card cds) [] =
      (case load_cards cds [] of Inl e \<Rightarrow> Inl e | Inr cs \<Rightarrow> Inr (map Some cs))" for cds
    using load_entries_dump_cards [of cds "[]"] by simp
  show ?thesis
    by (cases "d_moves sd"; cases "d_victory sd"; cases "d_cards sd")
      (simp_all add: load_game_file_def dump_def load_game_def dict_get_append
        dict_get_binding e those_map_Some split: sum.splits)
qed

lemma load_game_file_NoFile:
  "load_game_file g NoFile =
     (case load_game g None of Inl e \<Rightarrow> Failed e | Inr g' \<Rightarrow> Loaded g')"
  by (simp add: load_game_file_def load_game_def)

text \<open>
  \<open>load_game_file\<close> fails exactly when one of the steps of the \<^verbatim>\<open>try\<close> block raises.
\<close>

lemma returns_False_iff:
  "returns_False (load_game_file g (Json j)) \<longleftrightarrow>
     isl (subscript j ''moves'') \<or> isl (subscript j ''victory'')
     \<or> (case subscript j ''cards'' of Inl e \<Rightarrow> True | Inr cj \<Rightarrow>
         case iterate cj of Inl e \<Rightarrow> True | Inr cds \<Rightarrow> isl (load_entries cds []))"
proof -
  have r: "\<not> returns_False (rebuilt g mv vc cs)" for mv vc cs
    by (cases "(g, mv, vc, cs)" rule: rebuilt.cases) (simp_all add: returns_False_def)
  show ?thesis
    unfolding load_game_file_def
    by (cases "subscript j ''moves''"; cases "subscript j ''victory''";
        cases "subscript j ''cards''")
      (auto simp: r split: sum.splits, simp_all add: returns_False_def)
qed

section \<open>Rejected records\<close>

lemma subscript_no_key: "\<not> has_key j k \<Longrightarrow> isl (subscript j k)"
  by (cases j) (auto split: option.splits)

lemma load_entry_no_key:
  assumes "k \<in> set card_keys" and "\<not> has_key cd k"
  shows "isl (load_entry cd)"
  using assms subscript_no_key [of cd k]
  by (auto simp: card_keys_def load_entry_def split: sum.splits)

lemma load_entries_fails:
  "\<exists>cd \<in> set cds. isl (load_entry cd) \<Longrightarrow> isl (load_entries cds acc)"
proof (induction cds arbitrary: acc)
  case Nil
  then show ?case by simp
next
  case (Cons cd cds)
  then show ?case by (cases "load_entry cd") auto
qed

text \<open>
  C4, as the code has it. For every record, \<^verbatim>\<open>load_game\<close> fails (it returns \<^verbatim>\<open>False\<close>)
  if a required field is missing: \<^verbatim>\<open>moves\<close>, \<^verbatim>\<open>victory\<close> or \<^verbatim>\<open>cards\<close> of the record, or
  \<^verbatim>\<open>x\<close>, \<^verbatim>\<open>y\<close>, \<^verbatim>\<open>value\<close>, \<^verbatim>\<open>is_flipped\<close> or \<^verbatim>\<open>is_matched\<close> of one of its tiles.
\<close>

theorem load_game_rejects_missing_field:
  assumes "field_missing j"
  shows "returns_False (load_game_file g (Json j))"
proof -
  consider (top) "\<not> has_key j ''moves'' \<or> \<not> has_key j ''victory'' \<or> \<not> has_key j ''cards''"
    | (tile) cd k where "cd \<in> set (record_tiles j)" "k \<in> set card_keys" "\<not> has_key cd k"
    using assms unfolding field_missing_def by blast
  then show ?thesis
  proof cases
    case top
    then have "isl (subscript j ''moves'') \<or> isl (subscript j ''victory'')
        \<or> isl (subscript j ''cards'')"
      using subscript_no_key by blast
    then show ?thesis
      unfolding returns_False_iff by (auto split: sum.splits)
  next
    case tile
    show ?thesis
    proof (cases "subscript j ''cards''")
      case (Inl e)
      then show ?thesis unfolding returns_False_iff by simp
    next
      case cj: (Inr cj)
      show ?thesis
      proof (cases "iterate cj")
        case (Inl e)
        then show ?thesis unfolding returns_False_iff by (simp add: cj)
      next
        case (Inr cds)
        then have "cd \<in> set cds" using tile(1) cj by (simp add: record_tiles_def)
        then have "isl (load_entries cds [])"
          using load_entry_no_key [OF tile(2) tile(3)] load_entries_fails by blast
        then show ?thesis unfolding returns_False_iff by (simp add: cj Inr)
      qed
    qed
  qed
qed

theorem load_game_rejects_missing_field_witness:
  "field_missing (dump record_without_moves)
    \<and> returns_False (load_game_file game_a (Json (dump record_without_moves)))
    \<and> load_game_file game_a (Json (dump record_without_moves))
        = Failed (Raised (KeyError ''moves''))
    \<and> field_missing record_tile_without_value
    \<and> returns_False (load_game_file game_a (Json record_tile_without_value))
    \<and> load_game_file game_a (Json record_tile_without_value)
        = Failed (Raised (KeyError ''value''))"
proof -
  have a: "field_missing (dump record_without_moves)"
    by code_simp
  have b: "load_game_file game_a (Json (dump record_without_moves))
      = Failed (Raised (KeyError ''moves''))"
    by (simp add: load_game_file_dump load_game_def record_without_moves_def)
  have c: "field_missing record_tile_without_value"
    by code_simp
  have d: "load_game_file game_a (Json record_tile_without_value)
      = Failed (Raised (KeyError ''value''))"
    by (simp add: load_game_file_def record_tile_without_value_def load_entry_def)
  from load_game_rejects_missing_field [OF a, of game_a]
    load_game_rejects_missing_field [OF c, of game_a] a b c d
  show ?thesis by simp
qed

text \<open>
  The statement of C4 fails on the code: in the record that \<^verbatim>\<open>save_game\<close> writes for
  \<open>game_a\<close> no field is missing and each of the two symbols is on one tile only, and
  \<^verbatim>\<open>load_game\<close> returns \<^verbatim>\<open>True\<close> with the game of that record.
\<close>

theorem odd_symbol_count_accepted:
  "symbol_count_not_two (dump (save_game game_a))
    \<and> record_symbols (dump (save_game game_a)) = [JStr ''1'', JStr ''2'']
    \<and> \<not> field_missing (dump (save_game game_a))
    \<and> load_game_file game_a (Json (dump (save_game game_a))) = Loaded loaded_a"
proof -
  have s: "record_symbols (dump (save_game game_a)) = [JStr ''1'', JStr ''2'']"
    by code_simp
  have "symbol_count_not_two (dump (save_game game_a))"
    unfolding symbol_count_not_two_def s by simp
  moreover have "\<not> field_missing (dump (save_game game_a))"
    by code_simp
  moreover have "load_game_file game_a (Json (dump (save_game game_a))) = Loaded loaded_a"
    by (simp add: load_game_file_dump loaded_a_def load_game_def save_game_def
        load_cards_save_cards)
  ultimately show ?thesis using s by simp
qed

subsection \<open>The symbols play no part\<close>

lemma dict_get_map:
  "dict_get (map (\<lambda>(k, v). (k, h k v)) kvs) k = map_option (h k) (dict_get kvs k)"
  by (induction kvs) (auto split: option.splits)

lemma subscript_relabel_card:
  "subscript (relabel_card f cd) k =
     (case subscript cd k of Inl e \<Rightarrow> Inl e
      | Inr v \<Rightarrow> Inr (if k = ''value'' then f v else v))"
  using dict_get_map [of "\<lambda>k v. if k = ''value'' then f v else v" _ k]
  by (cases cd) (auto split: option.splits)

lemma load_entry_relabel_card:
  "load_entry (relabel_card f cd) = Inl e \<longleftrightarrow> load_entry cd = Inl e"
  by (auto simp: load_entry_def subscript_relabel_card split: sum.splits)

lemma load_entries_relabel:
  "load_entries (map (relabel_card f) cds) acc = Inl e \<longleftrightarrow> load_entries cds acc' = Inl e"
proof (induction cds arbitrary: acc acc')
  case Nil
  then show ?case by simp
next
  case (Cons cd cds)
  show ?case
  proof (cases "load_entry cd")
    case (Inl e')
    then have "load_entry (relabel_card f cd) = Inl e'"
      using load_entry_relabel_card by blast
    then show ?thesis using Inl by simp
  next
    case (Inr c)
    then obtain c' where "load_entry (relabel_card f cd) = Inr c'"
      using load_entry_relabel_card [of f cd] by (cases "load_entry (relabel_card f cd)") auto
    then show ?thesis using Inr Cons.IH by simp
  qed
qed

lemma subscript_relabel:
  "subscript (relabel f j) k =
     (case subscript j k of Inl e \<Rightarrow> Inl e
      | Inr v \<Rightarrow> Inr (if k = ''cards'' then relabel_cards f v else v))"
  using dict_get_map [of "\<lambda>k v. if k = ''cards'' then relabel_cards f v else v" _ k]
  by (cases j) (auto split: option.splits)

lemma isl_load_entries_relabel:
  "isl (load_entries (map (relabel_card f) cds) []) = isl (load_entries cds [])"
  using load_entries_relabel [of f cds "[]" _ "[]"] by (auto simp: isl_def)

lemma isl_iterate_relabel_cards:
  "(case iterate (relabel_cards f cj) of Inl e \<Rightarrow> True
    | Inr cds \<Rightarrow> isl (load_entries cds [])) =
   (case iterate cj of Inl e \<Rightarrow> True | Inr cds \<Rightarrow> isl (load_entries cds []))"
  by (cases cj) (simp_all add: isl_load_entries_relabel)

text \<open>
  \<^verbatim>\<open>load_game\<close> stores the symbols and never looks at them: with the symbols of a record
  replaced in any way, it fails as before or succeeds as before.
\<close>

lemma load_game_file_relabel:
  "returns_False (load_game_file g (Json (relabel f j))) =
     returns_False (load_game_file g (Json j))"
  unfolding returns_False_iff subscript_relabel
  by (cases "subscript j ''moves''"; cases "subscript j ''victory''";
      cases "subscript j ''cards''") (simp_all add: isl_iterate_relabel_cards)

section \<open>Cards loaded face up\<close>

lemma stuck_not_all_matched: "stuck k g \<Longrightarrow> \<not> all_matched (cards g)"
  by (auto simp: stuck_def all_matched_nth revealed_def)

lemma stuck_handle_click:
  assumes "stuck k g"
  shows "stuck k (handle_click g pos) \<and> victory (handle_click g pos) = victory g"
proof (cases "wait_time g > 0 \<or> victory g")
  case True
  then show ?thesis using assms by (simp add: handle_click_ignored)
next
  case active: False
  show ?thesis
  proof (cases "clicked g pos")
    case None
    then show ?thesis using assms by (simp add: handle_click_no_card)
  next
    case (Some c)
    note cs = clicked_Some [OF Some]
    have ck: "c \<noteq> k" using cs(2) assms by (auto simp: stuck_def revealed_def)
    show ?thesis
    proof (cases "first_selection g")
      case None
      show ?thesis
        unfolding handle_click_first [OF active Some None]
        using assms ck by (simp add: stuck_def)
    next
      case first: (Some i)
      have ik: "i \<noteq> k" using assms first by (simp add: stuck_def)
      show ?thesis
      proof (cases "second_selection g = None \<and> c \<noteq> i")
        case False
        then have "handle_click g pos = g"
          using handle_click_other [OF Some first] by blast
        then show ?thesis using assms by simp
      next
        case True
        then have s: "second_selection g = None" and ci: "c \<noteq> i" by simp_all
        show ?thesis
        proof (cases "card_value (cards g ! i) = card_value (cards g ! c)")
          case True
          let ?h = "g\<lparr>second_selection := Some c, moves := moves g + 1,
              cards := (cards g)[c := set_matched (flip (cards g ! c)),
                                 i := set_matched (cards g ! i)]\<rparr>"
          have k: "k < length (cards ?h)" "revealed (cards ?h ! k)"
            using assms ck ik by (simp_all add: stuck_def)
          then have "\<not> all_matched (cards ?h)"
            by (auto simp: all_matched_nth revealed_def)
          then have "check_victory ?h = ?h" by (simp add: check_victory_def)
          then show ?thesis
            unfolding handle_click_match [OF active Some first s ci True]
            using assms ck ik by (simp add: stuck_def reset_selection_def)
        next
          case False
          show ?thesis
            unfolding handle_click_mismatch [OF active Some first s ci False]
            using assms ck by (simp add: stuck_def)
        qed
      qed
    qed
  qed
qed

lemma stuck_flip_back_cards:
  assumes "stuck k g"
  shows "stuck k (flip_back_cards g) \<and> victory (flip_back_cards g) = victory g"
proof (cases "first_selection g")
  case None
  then show ?thesis using assms by (simp add: flip_back_cards_def)
next
  case first: (Some i)
  show ?thesis
  proof (cases "second_selection g")
    case None
    then show ?thesis using assms first by (simp add: flip_back_cards_def)
  next
    case (Some j)
    have "i \<noteq> k" "j \<noteq> k" using assms first Some by (simp_all add: stuck_def)
    then show ?thesis
      using assms first Some
      by (simp add: flip_back_cards_def reset_selection_def stuck_def Let_def)
  qed
qed

lemma stuck_update:
  assumes "stuck k g"
  shows "stuck k (update g) \<and> victory (update g) = victory g"
proof -
  let ?g1 = "g\<lparr>cards := map update_animation (cards g)\<rparr>"
  have g1: "stuck k ?g1"
    using assms by (simp add: stuck_def revealed_update_animation)
  then have g2: "stuck k (?g1\<lparr>wait_time := w\<rparr>)" for w
    by (auto simp: stuck_def)
  show ?thesis
    using g1 g2 stuck_flip_back_cards [OF g2]
    by (simp add: update_def Let_def)
qed

lemma stuck_run:
  "stuck k g \<Longrightarrow> stuck k (run g evs) \<and> victory (run g evs) = victory g"
proof (induction evs arbitrary: g)
  case Nil
  then show ?case by (simp add: run_Nil)
next
  case (Cons e evs)
  have "stuck k (step g e) \<and> victory (step g e) = victory g"
    using Cons.prems by (cases e) (simp_all add: stuck_handle_click stuck_update)
  then show ?case using Cons.IH [of "step g e"] by (simp add: run_Cons)
qed


lemma load_card_flags:
  "load_card cd = Inr c \<Longrightarrow>
     d_is_flipped cd = Some (is_flipped c) \<and> d_is_matched cd = Some (is_matched c)"
  by (auto simp: load_card_def Let_def Card_init_def split: option.splits if_splits)

lemma load_cards_nth:
  "load_cards cds acc = Inr cs \<Longrightarrow>
     \<exists>cs'. cs = acc @ cs' \<and> length cs' = length cds
       \<and> (\<forall>k < length cds. load_card (cds ! k) = Inr (cs' ! k))"
proof (induction cds arbitrary: acc)
  case Nil
  then show ?case by simp
next
  case (Cons cd cds)
  then obtain c where c: "load_card cd = Inr c" and rest: "load_cards cds (acc @ [c]) = Inr cs"
    by (auto split: sum.splits)
  from Cons.IH [OF rest] obtain cs' where cs': "cs = (acc @ [c]) @ cs'"
    "length cs' = length cds" "\<forall>k < length cds. load_card (cds ! k) = Inr (cs' ! k)"
    by blast
  have "\<forall>k < length (cd # cds). load_card ((cd # cds) ! k) = Inr ((c # cs') ! k)"
  proof (intro allI impI)
    fix k assume "k < length (cd # cds)"
    then show "load_card ((cd # cds) ! k) = Inr ((c # cs') ! k)"
      using c cs'(3) by (cases k) simp_all
  qed
  moreover have "cs = acc @ (c # cs')" using cs'(1) by simp
  moreover have "length (c # cs') = length (cd # cds)" using cs'(2) by simp
  ultimately show ?case by blast
qed

lemma load_game_Inr:
  assumes "load_game g0 (Some sd) = Inr g" and "d_cards sd = Some cds"
  shows "first_selection g = None \<and> second_selection g = None \<and> wait_time g = 0
    \<and> d_victory sd = Some (victory g) \<and> d_moves sd = Some (moves g)
    \<and> length (cards g) = length cds
    \<and> (\<forall>k < length cds. load_card (cds ! k) = Inr (cards g ! k))"
proof -
  from assms obtain cs where cs: "load_cards cds [] = Inr cs"
    and g: "g = g0\<lparr>moves := the (d_moves sd), victory := the (d_victory sd), cards := cs,
                first_selection := None, second_selection := None, wait_time := 0\<rparr>"
    and mv: "d_moves sd \<noteq> None" "d_victory sd \<noteq> None"
    by (auto simp: load_game_def split: option.splits sum.splits)
  from load_cards_nth [OF cs] have "length cs = length cds"
    "\<forall>k < length cds. load_card (cds ! k) = Inr (cs ! k)" by auto
  then show ?thesis using mv by (auto simp: g)
qed

text \<open>
  C10. When \<^verbatim>\<open>load_game\<close> accepts a record whose tile \<open>k\<close> is flipped and not matched,
  the loaded game has no selection and \<^verbatim>\<open>wait_time\<close> 0, and after every sequence of
  calls of \<^verbatim>\<open>handle_click\<close> and \<^verbatim>\<open>update\<close> card \<open>k\<close> is still flipped and not matched. So
  the cards are never all matched, and \<^verbatim>\<open>victory\<close> keeps the value that the record gave
  it: the game never becomes complete.
\<close>

theorem loaded_revealed_card_stays:
  assumes "load_game g0 (Some sd) = Inr g" and "d_cards sd = Some cds" and "k < length cds"
    and "d_is_flipped (cds ! k) = Some True" and "d_is_matched (cds ! k) = Some False"
  shows "first_selection g = None \<and> second_selection g = None \<and> wait_time g = 0
    \<and> d_victory sd = Some (victory g)
    \<and> (\<forall>evs. is_flipped (cards (run g evs) ! k) \<and> \<not> is_matched (cards (run g evs) ! k)
          \<and> \<not> all_matched (cards (run g evs)) \<and> victory (run g evs) = victory g)"
proof -
  note l = load_game_Inr [OF assms(1,2)]
  from l assms(3) have "load_card (cds ! k) = Inr (cards g ! k)" by simp
  from load_card_flags [OF this] assms(4,5)
  have "is_flipped (cards g ! k)" "\<not> is_matched (cards g ! k)" by simp_all
  with l assms(3) have s: "stuck k g" by (simp add: stuck_def revealed_def)
  have "is_flipped (cards (run g evs) ! k) \<and> \<not> is_matched (cards (run g evs) ! k)
          \<and> \<not> all_matched (cards (run g evs)) \<and> victory (run g evs) = victory g" for evs
    using stuck_run [OF s, of evs] stuck_not_all_matched [of k "run g evs"]
    by (simp add: stuck_def revealed_def)
  with l show ?thesis by simp
qed

lemma loaded_a_eq: "load_game game_a (Some (save_game game_a)) = Inr loaded_a"
  by (simp add: loaded_a_def load_game_def save_game_def load_cards_save_cards)

theorem loaded_revealed_card_stays_witness:
  "load_game game_a (Some (save_game game_a)) = Inr loaded_a
    \<and> d_cards (save_game game_a) = Some (map save_card (cards game_a))
    \<and> 0 < length (map save_card (cards game_a))
    \<and> d_is_flipped (map save_card (cards game_a) ! 0) = Some True
    \<and> d_is_matched (map save_card (cards game_a) ! 0) = Some False
    \<and> first_selection (run loaded_a taps_a) = Some 1
    \<and> is_flipped (cards (run loaded_a taps_a) ! 0)
    \<and> \<not> is_matched (cards (run loaded_a taps_a) ! 0)
    \<and> \<not> victory (run loaded_a taps_a)"
proof -
  have c: "d_cards (save_game game_a) = Some (map save_card (cards game_a))"
    by (simp add: save_game_def)
  have n: "0 < length (map save_card (cards game_a))"
    by (simp add: game_a_def)
  have f: "d_is_flipped (map save_card (cards game_a) ! 0) = Some True"
    by (simp add: game_a_def save_card_def card_96_def)
  have m: "d_is_matched (map save_card (cards game_a) ! 0) = Some False"
    by (simp add: game_a_def save_card_def card_96_def Card_init_def)
  have p: "first_selection (run loaded_a taps_a) = Some 1"
    by code_simp
  have v: "\<not> victory loaded_a"
    by code_simp
  from loaded_revealed_card_stays [OF loaded_a_eq c n f m] v
  have "is_flipped (cards (run loaded_a taps_a) ! 0)
    \<and> \<not> is_matched (cards (run loaded_a taps_a) ! 0) \<and> \<not> victory (run loaded_a taps_a)"
    by simp
  with loaded_a_eq c n f m p show ?thesis by simp
qed

end
